theory Spec2Isabelle
  imports Main "HOL-Library.Word" "HOL-Library.AList"
begin

unbundle bit_operations_syntax

section \<open>JavaScript strings\<close>

text \<open>
  A JavaScript string is a sequence of UTF-16 code units. The strings of this server
  come from HTTP headers, which Node decodes as Latin-1, and from JSON frames. The model
  is \<^typ>\<open>string\<close>: a list of code units below 256. Code units above 255 are outside the
  model. On this range \<open>toLowerCase\<close> maps \<open>A..Z\<close> and the upper-case Latin-1 letters
  (192..222 but the multiplication sign 215) to the code unit 32 above, and \<open>trim\<close> removes
  tab, line feed, vertical tab, form feed, carriage return, space and no-break space.
\<close>

definition toLowerCase_char :: "char \<Rightarrow> char" where
  "toLowerCase_char c =
     (let n = (of_char c :: nat) in
      if (65 \<le> n \<and> n \<le> 90) \<or> (192 \<le> n \<and> n \<le> 222 \<and> n \<noteq> 215)
      then char_of (n + 32) else c)"

definition toLowerCase :: "string \<Rightarrow> string" where
  "toLowerCase s = map toLowerCase_char s"

definition js_isSpace :: "char \<Rightarrow> bool" where
  "js_isSpace c = ((of_char c :: nat) \<in> set [9, 10, 11, 12, 13, 32, 160])"

definition js_trim :: "string \<Rightarrow> string" where
  "js_trim s = rev (dropWhile js_isSpace (rev (dropWhile js_isSpace s)))"

definition startsWith :: "string \<Rightarrow> string \<Rightarrow> bool" where
  "startsWith s p = (take (length p) s = p)"

text \<open>\<open>s.includes(p)\<close>: \<open>p\<close> occurs in \<open>s\<close> as a contiguous run.\<close>

fun js_includes :: "string \<Rightarrow> string \<Rightarrow> bool" where
  "js_includes [] p = (p = [])"
| "js_includes (c # cs) p = (startsWith (c # cs) p \<or> js_includes cs p)"

text \<open>\<open>s.indexOf(c)\<close> for a single character: \<open>None\<close> stands for \<open>-1\<close>.\<close>

fun indexOf :: "string \<Rightarrow> char \<Rightarrow> nat option" where
  "indexOf [] c = None"
| "indexOf (x # xs) c =
     (if x = c then Some 0 else (case indexOf xs c of None \<Rightarrow> None | Some i \<Rightarrow> Some (Suc i)))"

text \<open>
  \<open>a || b\<close> on values that are a string, \<open>undefined\<close> or \<open>null\<close>: the first operand
  when it is truthy (a non-empty string), the second otherwise. \<open>None\<close> stands for
  \<open>undefined\<close> and \<open>null\<close>.
\<close>

definition js_truthy :: "string option \<Rightarrow> bool" where
  "js_truthy v = (case v of None \<Rightarrow> False | Some s \<Rightarrow> s \<noteq> [])"

definition js_or :: "string option \<Rightarrow> string option \<Rightarrow> string option" where
  "js_or a b = (if js_truthy a then a else b)"

text \<open>\<open>v || ''\<close>.\<close>

definition or_empty :: "string option \<Rightarrow> string" where
  "or_empty v = (case js_or v (Some []) of None \<Rightarrow> [] | Some s \<Rightarrow> s)"

section \<open>Identity hasher\<close>

text \<open>
  The part of the HTTP upgrade request that \<open>generateStableDeviceId\<close> reads: the header
  object and the remote addresses of \<open>req.connection\<close>, \<open>req.socket\<close> and
  \<open>req.connection.socket\<close>.
\<close>

record request =
  headers :: "(string \<times> string) list"
  connection_remoteAddress :: "string option"
  socket_remoteAddress :: "string option"
  connection_socket_remoteAddress :: "string option"

definition header :: "request \<Rightarrow> string \<Rightarrow> string option" where
  "header req name = map_of (headers req) name"

text \<open>
  The loop body \<open>hash = ((hash << 5) - hash) + char; hash = hash & hash\<close>. The
  variable holds a 32-bit integer after every round (\<open>&\<close> converts to int32), the shift
  wraps to int32, and the intermediate double is exact, so the round is arithmetic
  modulo \<open>2 ^ 32\<close>.
\<close>

definition hashStep :: "32 word \<Rightarrow> char \<Rightarrow> 32 word" where
  "hashStep h c = (push_bit 5 h - h) + of_nat (of_char c)"

definition hashSeed :: "string \<Rightarrow> 32 word" where
  "hashSeed seed = foldl hashStep 0 seed"

definition digits36 :: string where
  "digits36 = ''0123456789abcdefghijklmnopqrstuvwxyz''"

text \<open>\<open>n.toString(36)\<close> for an integer \<open>n\<close>.\<close>

function toString36 :: "int \<Rightarrow> string" where
  "toString36 n =
     (if n < 0 then CHR ''-'' # toString36 (- n)
      else if n < 36 then [digits36 ! nat n]
      else toString36 (n div 36) @ [digits36 ! nat (n mod 36)])"
  by pat_completeness auto
termination
  by (relation "measure (\<lambda>n. 2 * nat \<bar>n\<bar> + (if n < 0 then 1 else 0))") auto

declare toString36.simps [simp del]

text \<open>\<open>Math.abs(hash).toString(36)\<close>; the absolute value of \<open>- 2 ^ 31\<close> is \<open>2 ^ 31\<close>.\<close>

definition absToString36 :: "32 word \<Rightarrow> string" where
  "absToString36 h = toString36 \<bar>sint h\<bar>"

definition isIOS_ua :: "string \<Rightarrow> bool" where
  "isIOS_ua userAgent =
     (let ua = toLowerCase userAgent in
      js_includes ua ''iphone'' \<or> js_includes ua ''ipad'' \<or> js_includes ua ''ipod'')"

definition client_ip :: "request \<Rightarrow> string option" where
  "client_ip req =
     js_or (header req ''x-forwarded-for'')
       (js_or (connection_remoteAddress req)
          (js_or (socket_remoteAddress req) (connection_socket_remoteAddress req)))"

definition generateStableDeviceId :: "string \<Rightarrow> request \<Rightarrow> string" where
  "generateStableDeviceId userAgent req =
     (if isIOS_ua userAgent then
        (let seed = userAgent @ or_empty (header req ''accept-language'')
         in ''ios-'' @ absToString36 (hashSeed seed))
      else
        (let ip = client_ip req;
             seed = userAgent @ or_empty ip @ or_empty (header req ''accept-language'')
         in ''device-'' @ absToString36 (hashSeed seed)))"

text \<open>The test \<open>/iPhone|iPad|iPod/.test(userAgent)\<close> of the connection handler.\<close>

definition isIOS_regex :: "string \<Rightarrow> bool" where
  "isIOS_regex userAgent =
     (js_includes userAgent ''iPhone'' \<or> js_includes userAgent ''iPad'' \<or>
      js_includes userAgent ''iPod'')"


text \<open>
  Two upgrade requests of one client that differ in the client address only, as when a
  phone moves from Wi-Fi to the cellular network.
\<close>

definition req_wifi :: request where
  "req_wifi =
     \<lparr>headers = [(''accept-language'', ''de'')],
      connection_remoteAddress = Some ''10.0.0.2'',
      socket_remoteAddress = Some ''10.0.0.2'',
      connection_socket_remoteAddress = None\<rparr>"

definition req_cell :: request where
  "req_cell =
     \<lparr>headers = [(''accept-language'', ''de'')],
      connection_remoteAddress = Some ''10.0.0.3'',
      socket_remoteAddress = Some ''10.0.0.3'',
      connection_socket_remoteAddress = None\<rparr>"

section \<open>Server state\<close>

text \<open>
  The module keeps its registries in JavaScript \<open>Map\<close>s, which iterate in insertion
  order: they are association lists here, \<^const>\<open>map_of\<close> is \<open>get\<close>,
  \<^const>\<open>AList.update\<close> is \<open>set\<close> (it replaces in place or appends),
  \<^const>\<open>AList.delete\<close> is \<open>delete\<close>, and \<^const>\<open>AList.map_entry\<close> is the mutation
  of an object that was read from the map. Both places that insert a device or a room
  use the record's \<open>id\<close> as the key, so the model keeps the id as the key only.
  A socket object is identified by a number. Numbers that are byte counts or times are
  integers; frame fields have the types the handlers expect. The German texts of the
  frames are written without umlauts.
\<close>

type_synonym ws = nat

datatype readyState = OPEN | CLOSING | CLOSED

datatype js_error = ReferenceError string | TypeError | RangeError

record file_meta =
  fileName :: string
  fileSize :: int
  fileType :: "string option"

record device =
  ws :: "ws option"
  name :: string
  customName :: "string option"
  deviceType :: string
  platform :: string
  browser :: string
  userAgent :: string
  pinned :: bool
  online :: bool
  lastSeen :: int
  roomId :: "string option"
  connectionStrength :: string
  ip :: "string option"

text \<open>The field \<open>members\<close> is the \<open>Set\<close> \<open>room.devices\<close>, in insertion order.\<close>

record room =
  roomName :: string
  created :: int
  createdBy :: string
  members :: "string list"

datatype status = Pending | Completed

text \<open>
  A JavaScript array with holes: \<open>None\<close> is a hole. The field \<open>chunks\<close> of a transfer
  is \<open>None\<close> when the property is absent, and \<open>Some []\<close> for the empty array, which is
  truthy.
\<close>

type_synonym js_array = "string option list"

record transfer =
  files :: "file_meta list"
  fromDevice :: string
  fromDeviceId :: string
  targetDeviceId :: string
  timestamp :: int
  totalSize :: int
  status :: status
  chunks :: "js_array option"
  receivedChunks :: nat
  startTime :: "int option"
  endTime :: "int option"

text \<open>
  Outbound frames, one constructor for each \<open>type\<close>, with the fields the server sets.
  The \<open>progress\<close> of \<open>uploadProgress\<close> is a floating-point percentage and is left out, as
  are the timestamps and the static \<open>serverInfo\<close> texts but the chunk size.
\<close>

datatype frame =
    Out_welcome string string
  | Out_error string
  | Out_pong
  | Out_deviceNameUpdated string
  | Out_roomError string
  | Out_roomJoined string string nat
  | Out_roomCreated string string
  | Out_roomLeft
  | Out_deviceJoined string string nat
  | Out_deviceLeft string string int "string option"
  | Out_deviceList "(string \<times> string \<times> bool \<times> bool) list" string string nat
  | Out_incomingFile "file_meta list" string string string int
  | Out_transferStarted string string
  | Out_transferError "string option" string
  | Out_transferRejected
  | Out_transferAccepted
  | Out_uploadProgress string nat nat
  | Out_fileComplete string string string int string string
  | Out_transferComplete string string string
  | Out_transferProgress string
  | Out_sendFileData string string
  | Out_downloadError string
  | Out_fileChunk string string nat nat string int
  | Out_duplicate_connection string bool

text \<open>Callbacks handed to \<open>setTimeout\<close>.\<close>

datatype timer_action =
    Timer_welcome ws string
  | Timer_closeDuplicate ws

record server =
  devices :: "(string \<times> device) list"
  rooms :: "(string \<times> room) list"
  connections :: "(ws \<times> string) list"
  activeConnections :: "(ws \<times> int) list"
  fileTransfers :: "(string \<times> transfer) list"
  currentMemoryUsage :: int
  sockets :: "(ws \<times> readyState) list"
  outbox :: "(ws \<times> frame) list"
  closeCalls :: "(ws \<times> nat option \<times> string) list"
  timers :: "(nat \<times> timer_action) list"

text \<open>
  The result of running a handler: the error it threw, if any, and the state it left
  behind. A throw keeps every mutation made before it.
\<close>

type_synonym outcome = "js_error option \<times> server"

definition ok :: "server \<Rightarrow> outcome" where
  "ok st = (None, st)"

definition throw :: "js_error \<Rightarrow> server \<Rightarrow> outcome" where
  "throw e st = (Some e, st)"

text \<open>Sequential composition: the second statement runs unless the first threw.\<close>

definition andThen :: "outcome \<Rightarrow> (server \<Rightarrow> outcome) \<Rightarrow> outcome" where
  "andThen r g = (case r of (None, st) \<Rightarrow> g st | (Some e, st) \<Rightarrow> (Some e, st))"

definition readyStateOf :: "server \<Rightarrow> ws \<Rightarrow> readyState" where
  "readyStateOf st w = (case map_of (sockets st) w of None \<Rightarrow> CLOSED | Some s \<Rightarrow> s)"

text \<open>
  \<open>w.send(frame)\<close> on a socket object: the frame goes out when the socket is open. On a
  closing or closed socket the \<open>ws\<close> library reports the failure to the callback, which
  the server never passes, and the frame is lost.
\<close>

definition ws_send :: "ws \<Rightarrow> frame \<Rightarrow> server \<Rightarrow> server" where
  "ws_send w f st =
     (if readyStateOf st w = OPEN then st\<lparr>outbox := outbox st @ [(w, f)]\<rparr> else st)"

text \<open>\<open>device.ws.send(frame)\<close>: a \<open>TypeError\<close> when \<open>device.ws\<close> is \<open>null\<close>.\<close>

definition send_on :: "ws option \<Rightarrow> frame \<Rightarrow> server \<Rightarrow> outcome" where
  "send_on wo f st = (case wo of None \<Rightarrow> throw TypeError st | Some w \<Rightarrow> ok (ws_send w f st))"

text \<open>\<open>w.close(code, reason)\<close> starts the closing handshake.\<close>

definition ws_close :: "ws \<Rightarrow> nat option \<Rightarrow> string \<Rightarrow> server \<Rightarrow> server" where
  "ws_close w code reason st =
     st\<lparr>sockets := AList.update w CLOSING (sockets st),
        closeCalls := closeCalls st @ [(w, code, reason)]\<rparr>"

definition modify_device :: "string \<Rightarrow> (device \<Rightarrow> device) \<Rightarrow> server \<Rightarrow> server" where
  "modify_device deviceId f st = st\<lparr>devices := AList.map_entry deviceId f (devices st)\<rparr>"

definition modify_room :: "string \<Rightarrow> (room \<Rightarrow> room) \<Rightarrow> server \<Rightarrow> server" where
  "modify_room rid f st = st\<lparr>rooms := AList.map_entry rid f (rooms st)\<rparr>"

definition modify_transfer :: "string \<Rightarrow> (transfer \<Rightarrow> transfer) \<Rightarrow> server \<Rightarrow> server" where
  "modify_transfer tid f st =
     st\<lparr>fileTransfers := AList.map_entry tid f (fileTransfers st)\<rparr>"

text \<open>\<open>Set.add\<close> and \<open>Set.delete\<close> on an insertion-ordered set.\<close>

definition set_add :: "string \<Rightarrow> string list \<Rightarrow> string list" where
  "set_add x xs = (if x \<in> set xs then xs else xs @ [x])"

definition set_delete :: "string \<Rightarrow> string list \<Rightarrow> string list" where
  "set_delete x xs = removeAll x xs"

text \<open>\<open>device.customName || device.name\<close>.\<close>

definition displayName :: "device \<Rightarrow> string" where
  "displayName d = (case js_or (customName d) (Some (name d)) of None \<Rightarrow> [] | Some s \<Rightarrow> s)"

section \<open>Presence broadcasts\<close>

text \<open>
  \<open>broadcastToRoom\<close>: every member but the excluded one whose device is registered,
  online and bound to an open socket gets the frame.
\<close>

definition broadcast_one :: "frame \<Rightarrow> string option \<Rightarrow> server \<Rightarrow> string \<Rightarrow> server" where
  "broadcast_one message excludeDeviceId st deviceId =
     (if Some deviceId = excludeDeviceId then st
      else (case map_of (devices st) deviceId of
              None \<Rightarrow> st
            | Some d \<Rightarrow>
                (case ws d of
                   None \<Rightarrow> st
                 | Some w \<Rightarrow>
                     if online d \<and> readyStateOf st w = OPEN then ws_send w message st
                     else st)))"

definition broadcastToRoom :: "string \<Rightarrow> frame \<Rightarrow> string option \<Rightarrow> server \<Rightarrow> server" where
  "broadcastToRoom rid message excludeDeviceId st =
     (case map_of (rooms st) rid of
        None \<Rightarrow> st
      | Some r \<Rightarrow> foldl (broadcast_one message excludeDeviceId) st (members r))"

definition deviceListEntry :: "server \<Rightarrow> string \<Rightarrow> (string \<times> string \<times> bool \<times> bool) list" where
  "deviceListEntry st deviceId =
     (case map_of (devices st) deviceId of
        None \<Rightarrow> []
      | Some d \<Rightarrow> [(deviceId, displayName d, pinned d, online d)])"

definition broadcastDeviceList :: "string \<Rightarrow> server \<Rightarrow> server" where
  "broadcastDeviceList rid st =
     (case map_of (rooms st) rid of
        None \<Rightarrow> st
      | Some r \<Rightarrow>
          (let deviceList = concat (map (deviceListEntry st) (members r))
           in broadcastToRoom rid
                (Out_deviceList deviceList rid (roomName r) (length deviceList)) None st))"

section \<open>Rooms\<close>

text \<open>\<open>String(n)\<close> for an integer, as in \<open>'room-' + Date.now()\<close>.\<close>

function toString10 :: "int \<Rightarrow> string" where
  "toString10 n =
     (if n < 0 then CHR ''-'' # toString10 (- n)
      else if n < 10 then [digits36 ! nat n]
      else toString10 (n div 10) @ [digits36 ! nat (n mod 10)])"
  by pat_completeness auto
termination
  by (relation "measure (\<lambda>n. 2 * nat \<bar>n\<bar> + (if n < 0 then 1 else 0))") auto

declare toString10.simps [simp del]

text \<open>
  \<open>generateRoomId\<close>: the clock and the nine random base-36 digits
  \<open>Math.random().toString(36).substr(2, 9)\<close> are inputs.
\<close>

definition generateRoomId :: "int \<Rightarrow> string \<Rightarrow> string" where
  "generateRoomId now rnd = ''room-'' @ toString10 now @ ''-'' @ rnd"

definition handleLeaveRoom :: "string \<Rightarrow> server \<Rightarrow> outcome" where
  "handleLeaveRoom deviceId st =
     (case map_of (devices st) deviceId of
        None \<Rightarrow> throw TypeError st
      | Some device \<Rightarrow>
          (case roomId device of
             None \<Rightarrow> ok st
           | Some rid \<Rightarrow>
               if rid = [] then ok st
               else
                 (let st1 =
                        (case map_of (rooms st) rid of
                           None \<Rightarrow> st
                         | Some r \<Rightarrow>
                             (let ms = set_delete deviceId (members r) in
                              if length ms = 0
                              then st\<lparr>rooms := AList.delete rid (rooms st)\<rparr>
                              else broadcastToRoom rid
                                     (Out_deviceLeft deviceId (displayName device)
                                        (int (length ms)) None)
                                     (Some deviceId)
                                     (modify_room rid (\<lambda>r. r\<lparr>members := ms\<rparr>) st)));
                      st2 = modify_device deviceId (\<lambda>d. d\<lparr>roomId := None\<rparr>) st1
                  in send_on (ws device) Out_roomLeft st2)))"

text \<open>The loop over \<open>rooms.values()\<close> that stops at the first room of that lower-cased name.\<close>

definition findRoomByName :: "string \<Rightarrow> server \<Rightarrow> (string \<times> room) option" where
  "findRoomByName lower st =
     List.find (\<lambda>(rid, r). toLowerCase (roomName r) = lower) (rooms st)"

definition handleJoinRoom :: "string \<Rightarrow> string option \<Rightarrow> string option \<Rightarrow> server \<Rightarrow> outcome" where
  "handleJoinRoom deviceId data_roomName data_roomId st =
     (case map_of (devices st) deviceId of
        None \<Rightarrow> throw TypeError st
      | Some device \<Rightarrow>
          (case js_or data_roomName data_roomId of
             None \<Rightarrow> send_on (ws device) (Out_roomError ''Raumname darf nicht leer sein'') st
           | Some requestedRoomName \<Rightarrow>
               if requestedRoomName = [] \<or> js_trim requestedRoomName = []
               then send_on (ws device) (Out_roomError ''Raumname darf nicht leer sein'') st
               else
                 (case findRoomByName (js_trim (toLowerCase requestedRoomName)) st of
                    None \<Rightarrow> send_on (ws device) (Out_roomError ''Raum nicht gefunden'') st
                  | Some (frid, foundRoom) \<Rightarrow>
                      andThen
                        (if js_truthy (roomId device) then handleLeaveRoom deviceId st
                         else ok st)
                        (\<lambda>st1.
                           let cur =
                                 (case map_of (rooms st1) frid of
                                    Some r \<Rightarrow> r
                                  | None \<Rightarrow>
                                      foundRoom\<lparr>members :=
                                        set_delete deviceId (members foundRoom)\<rparr>);
                               ms = set_add deviceId (members cur);
                               st2 = modify_room frid (\<lambda>r. r\<lparr>members := ms\<rparr>)
                                       (modify_device deviceId
                                          (\<lambda>d. d\<lparr>roomId := Some frid\<rparr>) st1)
                           in andThen
                                (send_on (ws device)
                                   (Out_roomJoined frid (roomName foundRoom) (length ms)) st2)
                                (\<lambda>st3.
                                   ok (broadcastToRoom frid
                                         (Out_deviceJoined deviceId (displayName device)
                                            (length ms))
                                         (Some deviceId)
                                         (broadcastDeviceList frid st3)))))))"

definition handleCreateRoom ::
  "string \<Rightarrow> string option \<Rightarrow> string option \<Rightarrow> int \<Rightarrow> string \<Rightarrow> server \<Rightarrow> outcome" where
  "handleCreateRoom deviceId data_roomName data_roomId now rnd st =
     (case map_of (devices st) deviceId of
        None \<Rightarrow> throw TypeError st
      | Some device \<Rightarrow>
          (case js_or data_roomName data_roomId of
             None \<Rightarrow> send_on (ws device) (Out_roomError ''Raumname darf nicht leer sein'') st
           | Some rn \<Rightarrow>
               if rn = [] \<or> js_trim rn = []
               then send_on (ws device) (Out_roomError ''Raumname darf nicht leer sein'') st
               else
                 (case findRoomByName (js_trim (toLowerCase rn)) st of
                    Some existingRoom \<Rightarrow>
                      send_on (ws device) (Out_roomError ''Raum existiert bereits'') st
                  | None \<Rightarrow>
                      andThen
                        (if js_truthy (roomId device) then handleLeaveRoom deviceId st
                         else ok st)
                        (\<lambda>st1.
                           let rid = generateRoomId now rnd;
                               st2 = st1\<lparr>rooms :=
                                       AList.update rid
                                         \<lparr>roomName = js_trim rn, created = now,
                                          createdBy = deviceId, members = [deviceId]\<rparr>
                                         (rooms st1)\<rparr>;
                               st3 = modify_device deviceId (\<lambda>d. d\<lparr>roomId := Some rid\<rparr>) st2
                           in andThen
                                (send_on (ws device) (Out_roomCreated rid (js_trim rn)) st3)
                                (\<lambda>st4. ok (broadcastDeviceList rid st4))))))"

section \<open>Memory accounting\<close>

text \<open>
  The limit is the property \<open>MEMORY_LIMITS.MAX_MEMORY_USAGE\<close>. The guard of
  \<open>updateMemoryUsage\<close> reads the bare identifier \<open>MAX_MEMORY_USAGE\<close> instead: the module
  has no \<open>const\<close>, \<open>let\<close>, \<open>var\<close>, function or parameter of that name and Node has no
  such global, so evaluating the identifier throws a \<open>ReferenceError\<close>.
\<close>

definition MEMORY_LIMITS_MAX_MEMORY_USAGE :: int where
  "MEMORY_LIMITS_MAX_MEMORY_USAGE = 500 * 1024 * 1024"

definition MAX_MEMORY_USAGE :: "js_error + int" where
  "MAX_MEMORY_USAGE = Inl (ReferenceError ''MAX_MEMORY_USAGE'')"

text \<open>
  The body of the callback of \<open>cleanupMemory\<close> for one key of the map, with the function
  it calls to release the bytes as a parameter. A key deleted meanwhile is skipped, as
  \<open>Map.forEach\<close> does.
\<close>

definition cleanupMemory_entry ::
  "(int \<Rightarrow> server \<Rightarrow> outcome) \<Rightarrow> int \<Rightarrow> string \<Rightarrow> server \<Rightarrow> outcome" where
  "cleanupMemory_entry release now transferId st =
     (case map_of (fileTransfers st) transferId of
        None \<Rightarrow> ok st
      | Some t \<Rightarrow>
          if now - timestamp t > 5 * 60 * 1000
          then andThen
                 (if chunks t \<noteq> None then release (- totalSize t) st else ok st)
                 (\<lambda>st1. ok (st1\<lparr>fileTransfers :=
                                 AList.delete transferId (fileTransfers st1)\<rparr>))
          else ok st)"

definition cleanupMemory_with ::
  "(int \<Rightarrow> server \<Rightarrow> outcome) \<Rightarrow> int \<Rightarrow> server \<Rightarrow> outcome" where
  "cleanupMemory_with release now st =
     foldl (\<lambda>r transferId. andThen r (cleanupMemory_entry release now transferId))
       (ok st) (map fst (fileTransfers st))"

text \<open>
  \<open>updateMemoryUsage\<close> and \<open>cleanupMemory\<close> call each other. The first argument is the
  number of stack frames left: a call with none left throws \<open>RangeError\<close>. The second is
  the clock that \<open>cleanupMemory\<close> reads.
\<close>

fun updateMemoryUsage :: "nat \<Rightarrow> int \<Rightarrow> int \<Rightarrow> server \<Rightarrow> outcome" where
  "updateMemoryUsage 0 now delta st = throw RangeError st"
| "updateMemoryUsage (Suc depth) now delta st =
     (let st1 = st\<lparr>currentMemoryUsage := currentMemoryUsage st + delta\<rparr> in
      case MAX_MEMORY_USAGE of
        Inl e \<Rightarrow> throw e st1
      | Inr limit \<Rightarrow>
          if currentMemoryUsage st1 > limit
          then cleanupMemory_with (updateMemoryUsage depth now) now st1
          else ok st1)"

declare updateMemoryUsage.simps [simp del]

definition cleanupMemory :: "nat \<Rightarrow> int \<Rightarrow> server \<Rightarrow> outcome" where
  "cleanupMemory depth now st =
     (case depth of
        0 \<Rightarrow> throw RangeError st
      | Suc d \<Rightarrow> cleanupMemory_with (updateMemoryUsage d now) now st)"

section \<open>Transfers\<close>

definition generateTransferId :: "int \<Rightarrow> string \<Rightarrow> string" where
  "generateTransferId now rnd = ''transfer-'' @ toString10 now @ ''-'' @ rnd"

definition handleFileTransfer ::
  "string \<Rightarrow> string \<Rightarrow> file_meta list \<Rightarrow> string option \<Rightarrow> int \<Rightarrow> string \<Rightarrow> server \<Rightarrow> outcome"
  where
  "handleFileTransfer senderId data_targetDeviceId data_files data_transferId now rnd st =
     (case map_of (devices st) senderId of
        None \<Rightarrow> throw TypeError st
      | Some sender \<Rightarrow>
          (case map_of (devices st) data_targetDeviceId of
             None \<Rightarrow>
               send_on (ws sender) (Out_transferError None ''Zielgeraet nicht gefunden'') st
           | Some receiver \<Rightarrow>
               if roomId sender \<noteq> roomId receiver
               then send_on (ws sender)
                      (Out_transferError None ''Geraet nicht im selben Raum'') st
               else
                 (let transferId =
                        (if js_truthy data_transferId then or_empty data_transferId
                         else generateTransferId now rnd)
                  in case data_files of
                       [] \<Rightarrow> throw TypeError st
                     | file0 # rest \<Rightarrow>
                         (let st1 = st\<lparr>fileTransfers :=
                                AList.update transferId
                                  \<lparr>files = data_files, fromDevice = displayName sender,
                                   fromDeviceId = senderId,
                                   targetDeviceId = data_targetDeviceId,
                                   timestamp = now, totalSize = fileSize file0,
                                   status = Pending, chunks = Some [],
                                   receivedChunks = 0, startTime = None,
                                   endTime = None\<rparr>
                                  (fileTransfers st)\<rparr>
                          in if online receiver \<and>
                                (case ws receiver of
                                   None \<Rightarrow> False
                                 | Some w \<Rightarrow> readyStateOf st1 w = OPEN)
                             then andThen
                                    (send_on (ws receiver)
                                       (Out_incomingFile data_files (displayName sender)
                                          senderId transferId (fileSize file0)) st1)
                                    (send_on (ws sender)
                                       (Out_transferStarted (displayName receiver) transferId))
                             else send_on (ws sender)
                                    (Out_transferError None ''Zielgeraet ist offline'') st1))))"

text \<open>The characters kept by \<open>replace(/[^A-Za-z0-9+/=]/g, '')\<close>.\<close>

definition isBase64Char :: "char \<Rightarrow> bool" where
  "isBase64Char c =
     (let n = (of_char c :: nat) in
      (65 \<le> n \<and> n \<le> 90) \<or> (97 \<le> n \<and> n \<le> 122) \<or> (48 \<le> n \<and> n \<le> 57) \<or>
      n = 43 \<or> n = 47 \<or> n = 61)"

definition cleanChunk :: "string \<Rightarrow> string" where
  "cleanChunk chunkData =
     (let cleanChunkData =
            (if startsWith chunkData ''data:''
             then (case indexOf chunkData (CHR '','') of
                     None \<Rightarrow> chunkData
                   | Some commaIndex \<Rightarrow> drop (commaIndex + 1) chunkData)
             else chunkData)
      in filter isBase64Char cleanChunkData)"

text \<open>\<open>a[i] = v\<close> extends the array with holes when \<open>i\<close> is beyond its end.\<close>

definition js_array_set :: "nat \<Rightarrow> string \<Rightarrow> js_array \<Rightarrow> js_array" where
  "js_array_set i v a =
     (if i < length a then a[i := Some v]
      else a @ replicate (i - length a) None @ [Some v])"

text \<open>\<open>a[i]\<close>: \<open>undefined\<close> at a hole and beyond the end.\<close>

definition js_array_get :: "js_array \<Rightarrow> nat \<Rightarrow> string option" where
  "js_array_get a i = (if i < length a then a ! i else None)"

text \<open>\<open>a.join('')\<close>: a hole contributes the empty string.\<close>

definition js_join :: "js_array \<Rightarrow> string" where
  "js_join a = concat (map (\<lambda>x. case x of None \<Rightarrow> [] | Some s \<Rightarrow> s) a)"

text \<open>\<open>if (sender && sender.ws) sender.ws.send(frame)\<close>.\<close>

definition send_if_bound :: "device option \<Rightarrow> frame \<Rightarrow> server \<Rightarrow> server" where
  "send_if_bound d f st =
     (case d of
        None \<Rightarrow> st
      | Some dev \<Rightarrow> (case ws dev of None \<Rightarrow> st | Some w \<Rightarrow> ws_send w f st))"

text \<open>
  The block that runs once \<open>receivedChunks === totalChunks\<close>, with its \<open>try\<close> and
  \<open>catch\<close>: reading \<open>transfer.files[0].name\<close> of an empty list is the one statement that
  can throw there. It returns the transfer object as well.
\<close>

definition completeTransfer ::
  "int \<Rightarrow> string \<Rightarrow> transfer \<Rightarrow> device option \<Rightarrow> server \<Rightarrow> transfer \<times> server" where
  "completeTransfer now transferId t sender st =
     (let completeFileData = js_join (case chunks t of None \<Rightarrow> [] | Some a \<Rightarrow> a);
          receiver = map_of (devices st) (targetDeviceId t);
          reachable =
            (case receiver of
               None \<Rightarrow> None
             | Some r \<Rightarrow>
                 (case ws r of
                    None \<Rightarrow> None
                  | Some w \<Rightarrow> if readyStateOf st w = OPEN then Some (r, w) else None))
      in case reachable of
           Some (r, w) \<Rightarrow>
             (case files t of
                [] \<Rightarrow>
                  (t, send_if_bound (map_of (devices st) (fromDeviceId t))
                        (Out_transferError (Some transferId)
                           ''Fehler beim Verarbeiten der Datei'') st)
              | file0 # rest \<Rightarrow>
                  (let st1 = ws_send w
                         (Out_fileComplete transferId (fileName file0)
                            (case js_or (fileType file0) (Some ''application/octet-stream'') of
                               None \<Rightarrow> [] | Some ty \<Rightarrow> ty)
                            (fileSize file0) completeFileData (fromDevice t)) st;
                       st2 = send_if_bound sender
                         (Out_transferComplete transferId (fileName file0) (displayName r)) st1
                   in (t\<lparr>status := Completed, endTime := Some now\<rparr>, st2)))
         | None \<Rightarrow>
             (t, send_if_bound sender
                   (Out_transferError (Some transferId) ''Empfaenger nicht erreichbar'') st))"

definition handleFileChunk ::
  "nat \<Rightarrow> int \<Rightarrow> string \<Rightarrow> string \<Rightarrow> nat \<Rightarrow> nat \<Rightarrow> string \<Rightarrow> int \<Rightarrow> server \<Rightarrow> outcome" where
  "handleFileChunk depth now deviceId transferId chunkIndex totalChunks chunkData data_fileSize st =
     (case map_of (fileTransfers st) transferId of
        None \<Rightarrow> ok st
      | Some transfer \<Rightarrow>
          (let t1 = (if chunks transfer = None
                     then transfer\<lparr>chunks := Some [], receivedChunks := 0,
                            startTime := Some now, totalSize := data_fileSize\<rparr>
                     else transfer)
           in andThen
                (if chunks transfer = None
                 then updateMemoryUsage depth now data_fileSize
                        (modify_transfer transferId (\<lambda>t. t1) st)
                 else ok st)
                (\<lambda>st1.
                   let cleanChunkData = cleanChunk chunkData;
                       t2 = t1\<lparr>chunks :=
                                 Some (js_array_set chunkIndex cleanChunkData
                                         (case chunks t1 of None \<Rightarrow> [] | Some a \<Rightarrow> a)),
                               receivedChunks := Suc (receivedChunks t1)\<rparr>;
                       st2 = modify_transfer transferId (\<lambda>t. t2) st1;
                       sender = map_of (devices st2) (fromDeviceId t2);
                       st3 = send_if_bound sender
                               (Out_uploadProgress transferId (receivedChunks t2) totalChunks)
                               st2
                   in if receivedChunks t2 = totalChunks
                      then (case completeTransfer now transferId t2 sender st3 of
                              (t3, st4) \<Rightarrow> ok (modify_transfer transferId (\<lambda>t. t3) st4))
                      else ok st3)))"

text \<open>\<open>transfer.chunks && transfer.chunks[chunkIndex]\<close>: a buffered, non-empty chunk.\<close>

definition bufferedChunk :: "transfer \<Rightarrow> nat \<Rightarrow> string option" where
  "bufferedChunk t chunkIndex =
     (case chunks t of
        None \<Rightarrow> None
      | Some a \<Rightarrow>
          (case js_array_get a chunkIndex of
             None \<Rightarrow> None
           | Some s \<Rightarrow> if s = [] then None else Some s))"

definition resendChunk ::
  "ws \<Rightarrow> string \<Rightarrow> string \<Rightarrow> nat \<Rightarrow> transfer \<Rightarrow> nat \<Rightarrow> server \<Rightarrow> outcome" where
  "resendChunk senderWs deviceId transferId data_totalChunks t chunkIndex st =
     (case bufferedChunk t chunkIndex of
        None \<Rightarrow> ok st
      | Some s \<Rightarrow>
          (case files t of
             [] \<Rightarrow> throw TypeError st
           | file0 # rest \<Rightarrow>
               ok (ws_send senderWs
                     (Out_fileChunk deviceId transferId chunkIndex data_totalChunks s
                        (fileSize file0)) st)))"

definition handleRequestMissingChunks ::
  "string \<Rightarrow> string \<Rightarrow> nat list \<Rightarrow> nat \<Rightarrow> server \<Rightarrow> outcome" where
  "handleRequestMissingChunks deviceId transferId missingChunks data_totalChunks st =
     (case map_of (fileTransfers st) transferId of
        None \<Rightarrow> ok st
      | Some t \<Rightarrow>
          (case map_of (devices st) (fromDeviceId t) of
             None \<Rightarrow> ok st
           | Some sender \<Rightarrow>
               (case ws sender of
                  None \<Rightarrow> ok st
                | Some w \<Rightarrow>
                    if readyStateOf st w \<noteq> OPEN then ok st
                    else foldl
                           (\<lambda>r chunkIndex.
                              andThen r
                                (resendChunk w deviceId transferId data_totalChunks t
                                   chunkIndex))
                           (ok st) missingChunks)))"

definition handleFileComplete :: "nat \<Rightarrow> int \<Rightarrow> string \<Rightarrow> server \<Rightarrow> outcome" where
  "handleFileComplete depth now transferId st =
     (case map_of (fileTransfers st) transferId of
        None \<Rightarrow> ok st
      | Some t \<Rightarrow>
          andThen
            (if chunks t \<noteq> None then updateMemoryUsage depth now (- totalSize t) st
             else ok st)
            (\<lambda>st1. ok (st1\<lparr>fileTransfers :=
                            AList.delete transferId (fileTransfers st1)\<rparr>)))"

definition handleFileCancel :: "nat \<Rightarrow> int \<Rightarrow> string \<Rightarrow> server \<Rightarrow> outcome" where
  "handleFileCancel depth now transferId st =
     (case map_of (fileTransfers st) transferId of
        None \<Rightarrow> ok st
      | Some t \<Rightarrow>
          andThen
            (if chunks t \<noteq> None then updateMemoryUsage depth now (- totalSize t) st
             else ok st)
            (\<lambda>st1. ok (st1\<lparr>fileTransfers :=
                            AList.delete transferId (fileTransfers st1)\<rparr>)))"

text \<open>The case \<open>transferComplete\<close> of the dispatcher.\<close>

definition handleTransferComplete :: "nat \<Rightarrow> int \<Rightarrow> string \<Rightarrow> server \<Rightarrow> outcome" where
  "handleTransferComplete depth now transferId st =
     (case map_of (fileTransfers st) transferId of
        None \<Rightarrow> ok st
      | Some t \<Rightarrow>
          andThen
            (if chunks t \<noteq> None then updateMemoryUsage depth now (- totalSize t) st
             else ok st)
            (\<lambda>st1. ok (st1\<lparr>fileTransfers :=
                            AList.delete transferId (fileTransfers st1)\<rparr>)))"

text \<open>\<open>if (sender && sender.online && sender.ws) sender.ws.send(frame)\<close>.\<close>

definition send_if_online :: "device option \<Rightarrow> frame \<Rightarrow> server \<Rightarrow> server" where
  "send_if_online d f st =
     (case d of
        None \<Rightarrow> st
      | Some dev \<Rightarrow> if online dev then send_if_bound (Some dev) f st else st)"

definition handleTransferRejected :: "string \<Rightarrow> string \<Rightarrow> server \<Rightarrow> outcome" where
  "handleTransferRejected data_fromDeviceId transferId st =
     (let st1 = send_if_online (map_of (devices st) data_fromDeviceId) Out_transferRejected st
      in ok (st1\<lparr>fileTransfers := AList.delete transferId (fileTransfers st1)\<rparr>))"

definition handleTransferAccepted :: "string \<Rightarrow> server \<Rightarrow> outcome" where
  "handleTransferAccepted data_fromDeviceId st =
     ok (send_if_online (map_of (devices st) data_fromDeviceId) Out_transferAccepted st)"

definition handleFileProgress :: "string \<Rightarrow> string \<Rightarrow> server \<Rightarrow> outcome" where
  "handleFileProgress data_targetDeviceId transferId st =
     ok (send_if_bound (map_of (devices st) data_targetDeviceId)
           (Out_transferProgress transferId) st)"

text \<open>\<open>device.ws\<close> where \<open>device\<close> may be \<open>undefined\<close>: sending on the result throws in both cases.\<close>

definition ws_of :: "device option \<Rightarrow> ws option" where
  "ws_of d = (case d of None \<Rightarrow> None | Some dev \<Rightarrow> ws dev)"

definition handleFileDownload :: "string \<Rightarrow> string \<Rightarrow> server \<Rightarrow> outcome" where
  "handleFileDownload deviceId transferId st =
     (let device = map_of (devices st) deviceId in
      case map_of (fileTransfers st) transferId of
        None \<Rightarrow> send_on (ws_of device) (Out_downloadError ''Datei nicht gefunden'') st
      | Some t \<Rightarrow>
          (case map_of (devices st) (fromDeviceId t) of
             None \<Rightarrow>
               send_on (ws_of device) (Out_downloadError ''Sender nicht verfuegbar'') st
           | Some sender \<Rightarrow>
               (case ws sender of
                  None \<Rightarrow>
                    send_on (ws_of device) (Out_downloadError ''Sender nicht verfuegbar'') st
                | Some w \<Rightarrow>
                    if online sender \<and> readyStateOf st w = OPEN
                    then ok (ws_send w (Out_sendFileData deviceId transferId) st)
                    else send_on (ws_of device)
                           (Out_downloadError ''Sender nicht verfuegbar'') st)))"

text \<open>The indices of an array that hold a chunk, in ascending order.\<close>

definition bufferedIndices :: "js_array \<Rightarrow> nat list" where
  "bufferedIndices a = filter (\<lambda>j. a ! j \<noteq> None) [0..<length a]"

text \<open>The transfer object after \<open>handleFileChunk\<close> has stored a chunk and counted it.\<close>

definition chunkStored :: "nat \<Rightarrow> string \<Rightarrow> transfer \<Rightarrow> transfer" where
  "chunkStored i d t =
     t\<lparr>chunks := Some (js_array_set i (cleanChunk d) (case chunks t of None \<Rightarrow> [] | Some a \<Rightarrow> a)),
       receivedChunks := Suc (receivedChunks t)\<rparr>"

section \<open>Connections\<close>

definition detectPlatform :: "string \<Rightarrow> string \<times> string" where
  "detectPlatform uaString =
     (let ua = toLowerCase uaString;
          platformName =
            (if js_includes ua ''iphone'' \<or> js_includes ua ''ipod'' then ''iOS''
             else if js_includes ua ''ipad'' then ''iPadOS''
             else if js_includes ua ''android'' then ''Android''
             else if js_includes ua ''windows'' then ''Windows''
             else if js_includes ua ''mac os'' \<or> js_includes ua ''macos'' then ''macOS''
             else if js_includes ua ''linux'' then ''Linux''
             else ''Unknown'');
          browserName =
            (if js_includes ua ''safari'' \<and> \<not> js_includes ua ''chrome'' \<and>
                \<not> js_includes ua ''crios'' then ''Safari''
             else if js_includes ua ''chrome'' \<and> \<not> js_includes ua ''edg'' then ''Chrome''
             else if js_includes ua ''firefox'' then ''Firefox''
             else if js_includes ua ''edge'' then ''Edge''
             else if js_includes ua ''opera'' then ''Opera''
             else if js_includes ua ''samsung'' then ''Samsung Internet''
             else ''Unknown'')
      in (platformName, browserName))"

definition generateDeviceName :: "string \<Rightarrow> string \<Rightarrow> string" where
  "generateDeviceName platformName browserName =
     (let platformNames =
            [(''Windows'', ''Windows PC''), (''macOS'', ''Mac''), (''Linux'', ''Linux PC''),
             (''Android'', ''Android Geraet''), (''iOS'', ''iPhone''), (''iPadOS'', ''iPad''),
             (''Unbekannt'', ''Unbekanntes Geraet'')];
          baseName = (case js_or (map_of platformNames platformName) (Some platformName) of
                        None \<Rightarrow> [] | Some b \<Rightarrow> b)
      in baseName @ '' ('' @ browserName @ '')'')"

definition getDeviceType :: "string \<Rightarrow> string" where
  "getDeviceType platformName =
     (if platformName \<in> set [''Android'', ''iOS''] then ''mobile''
      else if platformName \<in> set [''iPadOS''] then ''tablet''
      else if platformName \<in> set [''Windows'', ''macOS'', ''Linux''] then ''desktop''
      else ''unknown'')"

text \<open>
  The handler of \<open>wss.on('connection')\<close> for the new socket \<open>w\<close>, which is open. The
  heartbeat of \<open>setupIOSHeartbeat\<close> only sends \<open>ping\<close> frames and is left out.
  \<open>checkForDuplicateConnections\<close> is not called here, nor anywhere else in the module.
\<close>

definition on_connection :: "ws \<Rightarrow> request \<Rightarrow> int \<Rightarrow> server \<Rightarrow> server" where
  "on_connection w req now st0 =
     (let st = st0\<lparr>sockets := AList.update w OPEN (sockets st0)\<rparr>;
          uaString = (case js_or (header req ''user-agent'') (Some ''Unbekannt'') of
                         None \<Rightarrow> [] | Some u \<Rightarrow> u);
          (platformName, browserName) = detectPlatform uaString;
          deviceId = generateStableDeviceId uaString req;
          isIOS = isIOS_regex uaString;
          isSafari = (browserName = ''Safari'');
          st1 = (if isIOS \<and> isSafari then ws_send w (Out_welcome deviceId ''1MB'') st else st);
          st2 = st1\<lparr>activeConnections := AList.update w now (activeConnections st1)\<rparr>;
          st3 =
            (case map_of (devices st2) deviceId of
               Some existingDevice \<Rightarrow>
                 modify_device deviceId
                   (\<lambda>d. d\<lparr>ws := Some w, online := True, lastSeen := now,
                           userAgent := uaString, platform := platformName,
                           browser := browserName, ip := socket_remoteAddress req\<rparr>) st2
             | None \<Rightarrow>
                 st2\<lparr>devices :=
                   AList.update deviceId
                     \<lparr>ws = Some w, name = generateDeviceName platformName browserName,
                      customName = None, deviceType = getDeviceType platformName,
                      platform = platformName, browser = browserName, userAgent = uaString,
                      pinned = False, online = True, lastSeen = now, roomId = None,
                      connectionStrength = ''good'', ip = socket_remoteAddress req\<rparr>
                     (devices st2)\<rparr>);
          st4 = st3\<lparr>connections := AList.update w deviceId (connections st3)\<rparr>
      in if \<not> (isIOS \<and> isSafari)
         then st4\<lparr>timers := timers st4 @ [(100, Timer_welcome w deviceId)]\<rparr>
         else st4)"

text \<open>
  \<open>checkForDuplicateConnections\<close>: every other socket registered for the device id gets
  the frame and a timer that closes it after 1000 ms; then the current socket is told.
\<close>

definition duplicate_one :: "string \<Rightarrow> ws \<Rightarrow> server \<times> bool \<Rightarrow> ws \<times> string \<Rightarrow> server \<times> bool" where
  "duplicate_one deviceId currentWs acc entry =
     (case acc of
        (st, duplicateFound) \<Rightarrow>
          (case entry of
             (existingWs, existingDeviceId) \<Rightarrow>
               if existingDeviceId = deviceId \<and> existingWs \<noteq> currentWs
               then
                 (if readyStateOf st existingWs = OPEN
                  then ((ws_send existingWs
                           (Out_duplicate_connection
                              ''Neue Verbindung erkannt - diese Verbindung wird geschlossen''
                              False) st)
                          \<lparr>timers := timers st @ [(1000, Timer_closeDuplicate existingWs)]\<rparr>,
                        True)
                  else (st, True))
               else (st, duplicateFound)))"

definition checkForDuplicateConnections :: "string \<Rightarrow> ws \<Rightarrow> server \<Rightarrow> server" where
  "checkForDuplicateConnections deviceId currentWs st =
     (case foldl (duplicate_one deviceId currentWs) (st, False) (connections st) of
        (st1, duplicateFound) \<Rightarrow>
          if duplicateFound \<and> readyStateOf st1 currentWs = OPEN
          then ws_send currentWs
                 (Out_duplicate_connection ''Aeltere Verbindung wurde geschlossen'' True) st1
          else st1)"

text \<open>A timer callback runs.\<close>

definition fire_timer :: "timer_action \<Rightarrow> server \<Rightarrow> server" where
  "fire_timer a st =
     (case a of
        Timer_welcome w deviceId \<Rightarrow>
          if readyStateOf st w = OPEN then ws_send w (Out_welcome deviceId ''20MB'') st
          else st
      | Timer_closeDuplicate w \<Rightarrow>
          if readyStateOf st w = OPEN
          then ws_close w (Some 1000) ''Duplicate connection - newer connection available'' st
          else st)"

text \<open>\<open>if (device.roomId) broadcastDeviceList(device.roomId)\<close>.\<close>

definition broadcastDeviceList_of :: "string option \<Rightarrow> server \<Rightarrow> server" where
  "broadcastDeviceList_of r st =
     (case r of None \<Rightarrow> st | Some rid \<Rightarrow> if rid = [] then st else broadcastDeviceList rid st)"

text \<open>The handler of \<open>ws.on('close')\<close> of the socket \<open>w\<close>, which is closed by then.\<close>

definition on_close :: "ws \<Rightarrow> int \<Rightarrow> server \<Rightarrow> server" where
  "on_close w now st0 =
     (case map_of (connections st0) w of
        None \<Rightarrow> st0
      | Some deviceId \<Rightarrow>
          (let st = st0\<lparr>sockets := AList.update w CLOSED (sockets st0)\<rparr>;
               st3 =
                 (case map_of (devices st) deviceId of
                    None \<Rightarrow> st
                  | Some device \<Rightarrow>
                      (let st1 = modify_device deviceId
                                   (\<lambda>d. d\<lparr>online := False, lastSeen := now, ws := None\<rparr>) st
                       in case roomId device of
                            None \<Rightarrow> st1
                          | Some rid \<Rightarrow>
                              if rid = [] then st1
                              else
                                (case map_of (rooms st1) rid of
                                   None \<Rightarrow> st1
                                 | Some r \<Rightarrow>
                                     broadcastDeviceList rid
                                       (broadcastToRoom rid
                                          (Out_deviceLeft deviceId (displayName device)
                                             (int (length (members r)) - 1)
                                             (Some ''Verbindung getrennt''))
                                          (Some deviceId) st1))))
           in st3\<lparr>activeConnections := AList.delete w (activeConnections st3),
                  connections := AList.delete w (connections st3)\<rparr>))"

section \<open>Device handlers\<close>

text \<open>
  \<open>handleClientIdentify\<close>. The comparison that would correct the device name runs after
  the platform has been assigned and is kept as written. The fields \<open>clientId\<close>,
  \<open>sessionId\<close> and \<open>language\<close> are never read and are left out.
\<close>

definition handleClientIdentify :: "string \<Rightarrow> string option \<Rightarrow> int \<Rightarrow> server \<Rightarrow> outcome" where
  "handleClientIdentify deviceId data_userAgent now st =
     (case map_of (devices st) deviceId of
        None \<Rightarrow> ok st
      | Some device \<Rightarrow>
          (let d1 =
                 (if js_truthy data_userAgent
                  then (case detectPlatform (or_empty data_userAgent) of
                          (platformName, browserName) \<Rightarrow>
                            (let d0 = device\<lparr>platform := platformName, browser := browserName,
                                        userAgent := or_empty data_userAgent\<rparr>
                             in if platformName \<noteq> platform d0
                                then d0\<lparr>platform := platformName,
                                       name := generateDeviceName platformName browserName\<rparr>
                                else d0))
                  else device);
               d2 = d1\<lparr>lastSeen := now\<rparr>;
               st1 = modify_device deviceId (\<lambda>d. d2) st;
               st2 = (case ws d2 of
                        None \<Rightarrow> st1
                      | Some w \<Rightarrow>
                          if readyStateOf st1 w = OPEN
                          then ws_send w (Out_welcome deviceId ''20MB'') st1
                          else st1)
           in ok (broadcastDeviceList_of (roomId d2) st2)))"

definition handleDeviceInfo ::
  "string \<Rightarrow> string option \<Rightarrow> string option \<Rightarrow> string option \<Rightarrow> int \<Rightarrow> server \<Rightarrow> outcome"
  where
  "handleDeviceInfo deviceId data_name data_customName data_type now st =
     (case map_of (devices st) deviceId of
        None \<Rightarrow> ok st
      | Some device \<Rightarrow>
          (let d1 = device\<lparr>name := or_empty (js_or data_name (Some (name device))),
                      customName := js_or data_customName (customName device),
                      deviceType := or_empty (js_or data_type (Some (deviceType device))),
                      lastSeen := now\<rparr>;
               st1 = modify_device deviceId (\<lambda>d. d1) st
           in ok (broadcastDeviceList_of (roomId d1) st1)))"

definition handleUpdateDeviceName :: "string \<Rightarrow> string \<Rightarrow> int \<Rightarrow> server \<Rightarrow> outcome" where
  "handleUpdateDeviceName deviceId data_name now st =
     (case map_of (devices st) deviceId of
        None \<Rightarrow> ok st
      | Some device \<Rightarrow>
          (let d1 = device\<lparr>name := data_name, customName := Some data_name,
                      lastSeen := now\<rparr>;
               st1 = broadcastDeviceList_of (roomId d1)
                       (modify_device deviceId (\<lambda>d. d1) st)
           in case ws d1 of
                None \<Rightarrow> ok st1
              | Some w \<Rightarrow>
                  if readyStateOf st1 w = OPEN
                  then ok (ws_send w (Out_deviceNameUpdated data_name) st1)
                  else ok st1))"

definition handleTogglePinDevice :: "string \<Rightarrow> string \<Rightarrow> server \<Rightarrow> outcome" where
  "handleTogglePinDevice deviceId data_targetDeviceId st =
     (case map_of (devices st) data_targetDeviceId of
        None \<Rightarrow> ok st
      | Some targetDevice \<Rightarrow>
          (case map_of (devices st) deviceId of
             None \<Rightarrow> throw TypeError st
           | Some device \<Rightarrow>
               if roomId device = roomId targetDevice
               then ok (broadcastDeviceList_of (roomId device)
                          (modify_device data_targetDeviceId
                             (\<lambda>d. d\<lparr>pinned := \<not> pinned d\<rparr>) st))
               else ok st))"

text \<open>The case \<open>ping\<close> of the dispatcher.\<close>

definition handlePing :: "string \<Rightarrow> string option \<Rightarrow> int \<Rightarrow> server \<Rightarrow> outcome" where
  "handlePing deviceId data_connectionStrength now st =
     (case map_of (devices st) deviceId of
        None \<Rightarrow> ok st
      | Some device \<Rightarrow>
          (let st1 = modify_device deviceId
                       (\<lambda>d. d\<lparr>lastSeen := now,
                               connectionStrength :=
                                 or_empty (js_or data_connectionStrength (Some ''good''))\<rparr>) st
           in case ws device of
                None \<Rightarrow> ok st1
              | Some w \<Rightarrow>
                  if readyStateOf st1 w = OPEN then ok (ws_send w Out_pong st1) else ok st1))"

section \<open>Message router\<close>

text \<open>
  Inbound frames, one constructor for each \<open>type\<close> of the \<open>switch\<close>, with the fields the
  handlers read. A field that may be absent is an option. \<open>In_legacy\<close> stands for the
  types \<open>desktop\<close>, \<open>mobile\<close> and \<open>tablet\<close>, \<open>In_unknown\<close> for every other type.
\<close>

datatype message =
    In_client_identify "string option"
  | In_legacy string "string option" "string option"
  | In_deviceInfo "string option" "string option" "string option"
  | In_fileTransfer string "file_meta list" "string option"
  | In_fileChunk string nat nat string int
  | In_fileComplete string
  | In_updateDeviceName string
  | In_fileProgress string string
  | In_ping "string option"
  | In_transferComplete string
  | In_requestFileDownload string
  | In_requestMissingChunks string "nat list" nat
  | In_transferRejected string string
  | In_transferAccepted string
  | In_togglePinDevice string
  | In_joinRoom "string option" "string option"
  | In_createRoom "string option" "string option"
  | In_leaveRoom
  | In_fileCancel string
  | In_unknown string

text \<open>
  The \<open>switch\<close> of \<open>handleMessage\<close>. The arguments are the stack frames left, the clock
  and the random digits an id generator would draw.
\<close>

definition dispatch :: "nat \<Rightarrow> int \<Rightarrow> string \<Rightarrow> string \<Rightarrow> message \<Rightarrow> server \<Rightarrow> outcome" where
  "dispatch depth now rnd deviceId data st =
     (case data of
        In_client_identify ua \<Rightarrow> handleClientIdentify deviceId ua now st
      | In_legacy ty nm cn \<Rightarrow>
          (if js_truthy nm then handleDeviceInfo deviceId nm cn (Some ty) now st
           else (case map_of (devices st) deviceId of
                   None \<Rightarrow> throw TypeError st
                 | Some device \<Rightarrow>
                     handleDeviceInfo deviceId (Some (name device)) cn (Some ty) now st))
      | In_deviceInfo nm cn ty \<Rightarrow> handleDeviceInfo deviceId nm cn ty now st
      | In_fileTransfer target fs tid \<Rightarrow> handleFileTransfer deviceId target fs tid now rnd st
      | In_fileChunk tid chunkIndex totalChunks chunkData fsize \<Rightarrow>
          handleFileChunk depth now deviceId tid chunkIndex totalChunks chunkData fsize st
      | In_fileComplete tid \<Rightarrow> handleFileComplete depth now tid st
      | In_updateDeviceName nm \<Rightarrow> handleUpdateDeviceName deviceId nm now st
      | In_fileProgress target tid \<Rightarrow> handleFileProgress target tid st
      | In_ping strength \<Rightarrow> handlePing deviceId strength now st
      | In_transferComplete tid \<Rightarrow> handleTransferComplete depth now tid st
      | In_requestFileDownload tid \<Rightarrow> handleFileDownload deviceId tid st
      | In_requestMissingChunks tid missing totalCount \<Rightarrow>
          handleRequestMissingChunks deviceId tid missing totalCount st
      | In_transferRejected from_id tid \<Rightarrow> handleTransferRejected from_id tid st
      | In_transferAccepted from_id \<Rightarrow> handleTransferAccepted from_id st
      | In_togglePinDevice target \<Rightarrow> handleTogglePinDevice deviceId target st
      | In_joinRoom rn rid \<Rightarrow> handleJoinRoom deviceId rn rid st
      | In_createRoom rn rid \<Rightarrow> handleCreateRoom deviceId rn rid now rnd st
      | In_leaveRoom \<Rightarrow> handleLeaveRoom deviceId st
      | In_fileCancel tid \<Rightarrow> handleFileCancel depth now tid st
      | In_unknown ty \<Rightarrow>
          (case ws_of (map_of (devices st) deviceId) of
             None \<Rightarrow> ok st
           | Some w \<Rightarrow>
               if readyStateOf st w = OPEN
               then ok (ws_send w (Out_error (''Unbekannter Nachrichtentyp: '' @ ty)) st)
               else ok st))"

text \<open>
  \<open>handleMessage\<close>: the \<open>switch\<close> inside \<open>try\<close>; the \<open>catch\<close> answers with an \<open>error\<close>
  frame. No handler removes a device, so the device read before the \<open>switch\<close> is the one
  registered after it.
\<close>

definition handleMessage :: "nat \<Rightarrow> int \<Rightarrow> string \<Rightarrow> string \<Rightarrow> message \<Rightarrow> server \<Rightarrow> server" where
  "handleMessage depth now rnd deviceId data st =
     (case dispatch depth now rnd deviceId data st of
        (None, st1) \<Rightarrow> st1
      | (Some e, st1) \<Rightarrow>
          (case ws_of (map_of (devices st1) deviceId) of
             None \<Rightarrow> st1
           | Some w \<Rightarrow>
               if readyStateOf st1 w = OPEN
               then ws_send w (Out_error ''Interner Server Fehler'') st1
               else st1))"

text \<open>
  The handler of \<open>ws.on('message')\<close> of the socket \<open>w\<close>, whose device id is the one
  registered in \<open>connections\<close>. The payload is \<open>None\<close> when \<open>JSON.parse\<close> throws.
\<close>

definition on_message ::
  "nat \<Rightarrow> ws \<Rightarrow> int \<Rightarrow> string \<Rightarrow> message option \<Rightarrow> server \<Rightarrow> server" where
  "on_message depth w now rnd payload st =
     (case map_of (connections st) w of
        None \<Rightarrow> st
      | Some deviceId \<Rightarrow>
          (let st1 = st\<lparr>activeConnections :=
                         AList.map_entry w (\<lambda>lastActivity. now) (activeConnections st)\<rparr>
           in case payload of
                None \<Rightarrow>
                  if readyStateOf st1 w = OPEN
                  then ws_send w (Out_error ''Nachrichtenfehler'') st1
                  else st1
              | Some data \<Rightarrow> handleMessage depth now rnd deviceId data st1))"

section \<open>Janitor\<close>

definition sweep_connection :: "int \<Rightarrow> server \<Rightarrow> ws \<times> int \<Rightarrow> server" where
  "sweep_connection now st entry =
     (case entry of
        (w, lastActivity) \<Rightarrow>
          if now - lastActivity > 5 * 60 * 1000
          then (let st1 = (if readyStateOf st w = OPEN
                           then ws_close w (Some 1000) ''Inaktivitaet'' st else st)
                in st1\<lparr>activeConnections := AList.delete w (activeConnections st1)\<rparr>)
          else st)"

definition sweep_device :: "int \<Rightarrow> server \<Rightarrow> string \<times> device \<Rightarrow> server" where
  "sweep_device now st entry =
     (case entry of
        (deviceId, device) \<Rightarrow>
          (let timeSinceLastSeen = now - lastSeen device;
               isExpired = (if pinned device then timeSinceLastSeen > 24 * 60 * 60 * 1000
                            else timeSinceLastSeen > 30 * 60 * 1000)
           in if isExpired \<and> \<not> online device
              then
                (let st1 =
                       (case roomId device of
                          None \<Rightarrow> st
                        | Some rid \<Rightarrow>
                            if rid = [] then st
                            else
                              (case map_of (rooms st) rid of
                                 None \<Rightarrow> st
                               | Some r \<Rightarrow>
                                   (let ms = set_delete deviceId (members r) in
                                    if length ms = 0
                                    then st\<lparr>rooms := AList.delete rid (rooms st)\<rparr>
                                    else modify_room rid (\<lambda>r. r\<lparr>members := ms\<rparr>) st)));
                     st2 = (case ws device of
                              None \<Rightarrow> st1
                            | Some w \<Rightarrow>
                                if readyStateOf st1 w = OPEN then ws_close w None [] st1
                                else st1)
                 in st2\<lparr>devices := AList.delete deviceId (devices st2)\<rparr>)
              else st))"

definition sweep_transfer :: "nat \<Rightarrow> int \<Rightarrow> string \<Rightarrow> server \<Rightarrow> outcome" where
  "sweep_transfer depth now transferId st =
     (case map_of (fileTransfers st) transferId of
        None \<Rightarrow> ok st
      | Some t \<Rightarrow>
          if now - timestamp t > 60 * 60 * 1000
          then andThen
                 (if chunks t \<noteq> None then updateMemoryUsage depth now (- totalSize t) st
                  else ok st)
                 (\<lambda>st1. ok (st1\<lparr>fileTransfers :=
                                 AList.delete transferId (fileTransfers st1)\<rparr>))
          else ok st)"

text \<open>
  The callback of the 60 s \<open>setInterval\<close>. The loops run over the keys present at their
  start; the first two remove nothing but the entry they visit, the third skips a key
  removed meanwhile, as \<open>Map.forEach\<close> does. The sweep of the upload directory and the
  writes to disk are left out. An error that leaves this callback is not caught by
  anything.
\<close>

definition sweep :: "nat \<Rightarrow> int \<Rightarrow> server \<Rightarrow> outcome" where
  "sweep depth now st =
     (let st1 = foldl (sweep_connection now) st (activeConnections st);
          st2 = foldl (sweep_device now) st1 (devices st1)
      in foldl (\<lambda>r transferId. andThen r (sweep_transfer depth now transferId)) (ok st2)
           (map fst (fileTransfers st2)))"

section \<open>Start and reachable states\<close>

definition initial_server :: server where
  "initial_server =
     \<lparr>devices = [], rooms = [], connections = [], activeConnections = [],
      fileTransfers = [], currentMemoryUsage = 0, sockets = [], outbox = [],
      closeCalls = [], timers = []\<rparr>"

text \<open>
  \<open>loadDevices\<close> and \<open>loadRooms\<close> run when the module is loaded, in every worker. The
  argument is the array parsed from the catalogue file, each entry with its \<open>id\<close>; a
  file that is missing, empty or not an array gives no entry, and a load that stops at
  a malformed entry is the load of the entries before it. A device entry is loaded
  offline and unbound. The files hold neither \<open>connectionStrength\<close> nor \<open>ip\<close>, and no
  handler here reads either. \<open>new Set(room.devices)\<close> keeps the first of equal ids. An
  entry with the id of an earlier one replaces it in place, as \<open>Map.set\<close> does.
\<close>

definition loadDevices :: "(string \<times> device) list \<Rightarrow> (string \<times> device) list" where
  "loadDevices devicesData =
     foldl (\<lambda>m e. AList.update (fst e) ((snd e)\<lparr>online := False, ws := None\<rparr>) m) []
       devicesData"

definition loadRooms :: "(string \<times> room) list \<Rightarrow> (string \<times> room) list" where
  "loadRooms roomsData =
     foldl (\<lambda>m e. AList.update (fst e)
                     ((snd e)\<lparr>members := foldl (\<lambda>s d. set_add d s) [] (members (snd e))\<rparr>) m)
       [] roomsData"

text \<open>The state of a worker once the module is loaded, from what the two files hold.\<close>

definition startup :: "(string \<times> device) list \<Rightarrow> (string \<times> room) list \<Rightarrow> server" where
  "startup devicesData roomsData =
     initial_server\<lparr>devices := loadDevices devicesData, rooms := loadRooms roomsData\<rparr>"

text \<open>
  The route \<open>DELETE /api/transfers/:transferId\<close>; an error that leaves it is answered
  by the framework and the state stays as the throw left it.
\<close>

definition http_delete_transfer :: "nat \<Rightarrow> int \<Rightarrow> string \<Rightarrow> server \<Rightarrow> outcome" where
  "http_delete_transfer depth now transferId st =
     (case map_of (fileTransfers st) transferId of
        None \<Rightarrow> ok st
      | Some t \<Rightarrow>
          andThen
            (if chunks t \<noteq> None then updateMemoryUsage depth now (- totalSize t) st
             else ok st)
            (\<lambda>st1. ok (st1\<lparr>fileTransfers :=
                            AList.delete transferId (fileTransfers st1)\<rparr>)))"

text \<open>
  The states a worker reaches from a start state by the events it reacts to: a
  connection, a message, a close, a timer, the janitor and the one route that changes
  a registry. The start state of the server is \<^const>\<open>startup\<close> of what the catalogue
  files hold, whatever that is: the files are written at different moments and by
  every worker, and a damaged device file is replaced by an empty one while the room
  file stays.
\<close>

inductive reachable_from :: "server \<Rightarrow> server \<Rightarrow> bool" for s0 :: server where
  reachable_start: "reachable_from s0 s0"
| reachable_connection:
    "reachable_from s0 st \<Longrightarrow> reachable_from s0 (on_connection w req now st)"
| reachable_message:
    "reachable_from s0 st \<Longrightarrow> reachable_from s0 (on_message depth w now rnd payload st)"
| reachable_close: "reachable_from s0 st \<Longrightarrow> reachable_from s0 (on_close w now st)"
| reachable_timer:
    "reachable_from s0 st \<Longrightarrow> (delay, a) \<in> set (timers st) \<Longrightarrow>
     reachable_from s0 (fire_timer a st)"
| reachable_sweep: "reachable_from s0 st \<Longrightarrow> reachable_from s0 (snd (sweep depth now st))"
| reachable_http_delete:
    "reachable_from s0 st \<Longrightarrow>
     reachable_from s0 (snd (http_delete_transfer depth now transferId st))"

text \<open>A device sends several frames, which the router handles one after the other.\<close>

definition handleMessages :: "nat \<Rightarrow> int \<Rightarrow> string \<Rightarrow> message list \<Rightarrow> server \<Rightarrow> server" where
  "handleMessages depth now deviceId msgs st =
     foldl (\<lambda>s data. handleMessage depth now [] deviceId data s) st msgs"

text \<open>A \<open>fileChunk\<close> frame for a transfer, from its index, total, payload and file size.\<close>

definition chunkFrame :: "string \<Rightarrow> nat \<times> nat \<times> string \<times> int \<Rightarrow> message" where
  "chunkFrame tid f = (case f of (i, n, d, fsz) \<Rightarrow> In_fileChunk tid i n d fsz)"


text \<open>
  The \<open>fileChunk\<close> frames of a transfer whose payloads, in index order, are \<open>p\<close>,
  sent in the order \<open>is\<close> of indices.
\<close>

definition chunkFrames :: "string \<Rightarrow> int \<Rightarrow> string list \<Rightarrow> nat list \<Rightarrow> message list" where
  "chunkFrames tid fsz p is =
     map (\<lambda>i. In_fileChunk tid i (length p) (p ! i) fsz) is"

definition isFileComplete :: "frame \<Rightarrow> bool" where
  "isFileComplete f = (case f of Out_fileComplete a b c d e g \<Rightarrow> True | _ \<Rightarrow> False)"

text \<open>The frames sent between two states, with their sockets.\<close>

definition newFrames :: "server \<Rightarrow> server \<Rightarrow> (ws \<times> frame) list" where
  "newFrames st st' = drop (length (outbox st)) (outbox st')"

text \<open>
  The \<open>fileChunk\<close> frames for the listed indices that hold a non-empty chunk, in the
  order of the list, all for one socket.
\<close>

definition resentFrames ::
  "ws \<Rightarrow> string \<Rightarrow> string \<Rightarrow> nat \<Rightarrow> transfer \<Rightarrow> int \<Rightarrow> nat list \<Rightarrow> (ws \<times> frame) list" where
  "resentFrames w dev tid n t fsz missing =
     concat (map (\<lambda>i. case bufferedChunk t i of
                          None \<Rightarrow> []
                        | Some s \<Rightarrow> [(w, Out_fileChunk dev tid i n s fsz)]) missing)"

section \<open>Room membership\<close>

text \<open>
  Every member of a registered room is a registered device whose \<open>roomId\<close> names that
  room: a device is in the member set of no room but the one its \<open>roomId\<close> names.
\<close>

definition room_inv :: "server \<Rightarrow> bool" where
  "room_inv st =
     (\<forall>rid r d. map_of (rooms st) rid = Some r \<and> d \<in> set (members r) \<longrightarrow>
        (\<exists>dev. map_of (devices st) d = Some dev \<and> roomId dev = Some rid))"

text \<open>
  With it go two facts of the representation: the keys of the device map are distinct,
  and no room has the empty string as id.
\<close>

definition registry_inv :: "server \<Rightarrow> bool" where
  "registry_inv st =
     (distinct (map fst (devices st)) \<and> map_of (rooms st) [] = None \<and> room_inv st)"

text \<open>The \<open>roomId\<close> of every registered device.\<close>

definition roomIds :: "server \<Rightarrow> (string \<times> string option) list" where
  "roomIds st = map (\<lambda>e. (fst e, roomId (snd e))) (devices st)"

text \<open>Two states with the same rooms and the same \<open>roomId\<close> of every device.\<close>

definition sameRooms :: "server \<Rightarrow> server \<Rightarrow> bool" where
  "sameRooms st st' = (roomIds st' = roomIds st \<and> rooms st' = rooms st)"

text \<open>The device is in the member set of no room.\<close>

definition noRoom :: "server \<Rightarrow> string \<Rightarrow> bool" where
  "noRoom st d = (\<forall>rid r. map_of (rooms st) rid = Some r \<longrightarrow> d \<notin> set (members r))"

section \<open>Room names\<close>

text \<open>The id and the display name of every room, in the order of the map.\<close>

definition roomNames :: "server \<Rightarrow> (string \<times> string) list" where
  "roomNames st = map (\<lambda>e. (fst e, roomName (snd e))) (rooms st)"

text \<open>Room ids are distinct: they are the keys of a \<open>Map\<close>.\<close>

definition ids_inv :: "server \<Rightarrow> bool" where
  "ids_inv st = distinct (map fst (roomNames st))"

text \<open>A step that removes rooms at most, and renames none.\<close>

definition keepsNames :: "server \<Rightarrow> server \<Rightarrow> bool" where
  "keepsNames st st' = (\<exists>P. roomNames st' = filter P (roomNames st))"

section \<open>Presence frames\<close>

text \<open>The frames that tell the members of a room who is in it.\<close>

definition isPresence :: "frame \<Rightarrow> bool" where
  "isPresence f =
     (case f of
        Out_deviceList l rid nm n \<Rightarrow> True
      | Out_deviceJoined d nm n \<Rightarrow> True
      | Out_deviceLeft d nm n reason \<Rightarrow> True
      | _ \<Rightarrow> False)"

text \<open>A step that only sends presence frames.\<close>

definition announces :: "server \<Rightarrow> server \<Rightarrow> bool" where
  "announces st st' =
     (devices st' = devices st \<and> rooms st' = rooms st \<and> sockets st' = sockets st \<and>
      (\<exists>fs. outbox st' = outbox st @ fs \<and> list_all (\<lambda>x. isPresence (snd x)) fs))"

section \<open>Membership, as a client sees it\<close>

text \<open>The ids of the rooms that have the device in their member set.\<close>

definition memberOf :: "server \<Rightarrow> string \<Rightarrow> string list" where
  "memberOf st d = map fst (filter (\<lambda>e. d \<in> set (members (snd e))) (rooms st))"

text \<open>The member set of a room, \<open>None\<close> when there is no such room.\<close>

definition roomMembers :: "server \<Rightarrow> string \<Rightarrow> string list option" where
  "roomMembers st rid = map_option members (map_of (rooms st) rid)"

text \<open>The \<open>roomId\<close> of a device, \<open>None\<close> also when the device is not registered.\<close>

definition roomIdOf :: "server \<Rightarrow> string \<Rightarrow> string option" where
  "roomIdOf st d = (case map_of (devices st) d of None \<Rightarrow> None | Some dev \<Rightarrow> roomId dev)"

text \<open>
  The registries are in step: every room has a non-empty id, and every member of a room
  is a registered device whose \<open>roomId\<close> names that room.
\<close>

definition inStep :: "server \<Rightarrow> bool" where
  "inStep st =
     list_all (\<lambda>e. fst e \<noteq> [] \<and> list_all (\<lambda>d. roomIdOf st d = Some (fst e)) (members (snd e)))
       (rooms st)"

section \<open>Frames to a device\<close>

text \<open>What \<open>if (device.ws) device.ws.send(frame)\<close> puts on the wire.\<close>

definition framesTo :: "server \<Rightarrow> ws option \<Rightarrow> frame \<Rightarrow> (ws \<times> frame) list" where
  "framesTo st wo f =
     (case wo of
        None \<Rightarrow> []
      | Some w \<Rightarrow> if readyStateOf st w = OPEN then [(w, f)] else [])"

text \<open>The open socket the sender of a transfer is bound to, if it is registered and has one.\<close>

definition senderChannel :: "server \<Rightarrow> transfer \<Rightarrow> ws option" where
  "senderChannel st t =
     (case map_of (devices st) (fromDeviceId t) of
        None \<Rightarrow> None
      | Some sender \<Rightarrow>
          (case ws sender of
             None \<Rightarrow> None
           | Some w \<Rightarrow> if readyStateOf st w = OPEN then Some w else None))"

definition isTransferComplete :: "frame \<Rightarrow> bool" where
  "isTransferComplete f = (case f of Out_transferComplete a b c \<Rightarrow> True | _ \<Rightarrow> False)"

section \<open>Example states\<close>

text \<open>
  Two devices with open sockets \<open>1\<close> and \<open>2\<close> in the room \<open>Foo\<close>, as left by two
  connections, a \<open>createRoom\<close> and a \<open>joinRoom\<close>, with the frames sent so far dropped.
\<close>

definition device_a :: device where
  "device_a =
     \<lparr>ws = Some 1, name = ''Unknown (Unknown)'', customName = None,
      deviceType = ''unknown'', platform = ''Unknown'', browser = ''Unknown'',
      userAgent = ''Unbekannt'', pinned = False, online = True, lastSeen = 1000,
      roomId = Some ''room-2000-abc123def'', connectionStrength = ''good'',
      ip = Some ''10.0.0.2''\<rparr>"

definition device_b :: device where
  "device_b =
     \<lparr>ws = Some 2, name = ''Unknown (Unknown)'', customName = None,
      deviceType = ''unknown'', platform = ''Unknown'', browser = ''Unknown'',
      userAgent = ''Unbekannt'', pinned = False, online = True, lastSeen = 1000,
      roomId = Some ''room-2000-abc123def'', connectionStrength = ''good'',
      ip = Some ''10.0.0.3''\<rparr>"

definition st_room :: server where
  "st_room =
     \<lparr>devices = [(''device-yaelai'', device_a), (''device-yaem17'', device_b)],
      rooms = [(''room-2000-abc123def'',
                \<lparr>roomName = ''Foo'', created = 2000, createdBy = ''device-yaelai'',
                 members = [''device-yaelai'', ''device-yaem17'']\<rparr>)],
      connections = [(1, ''device-yaelai''), (2, ''device-yaem17'')],
      activeConnections = [(1, 2000), (2, 3000)],
      fileTransfers = [], currentMemoryUsage = 0,
      sockets = [(1, OPEN), (2, OPEN)], outbox = [], closeCalls = [], timers = []\<rparr>"

definition file_x :: file_meta where
  "file_x = \<lparr>fileName = ''x.txt'', fileSize = 9, fileType = Some ''text/plain''\<rparr>"

text \<open>The first device has offered the nine-byte file \<open>x.txt\<close> to the second as \<open>t1\<close>.\<close>

definition st_offer :: server where
  "st_offer =
     handleMessage 100 4000 ''r4'' ''device-yaelai''
       (In_fileTransfer ''device-yaem17'' [file_x] (Some ''t1'')) st_room"

definition transfer_t1 :: transfer where
  "transfer_t1 =
     \<lparr>files = [file_x], fromDevice = ''Unknown (Unknown)'',
      fromDeviceId = ''device-yaelai'', targetDeviceId = ''device-yaem17'',
      timestamp = 4000, totalSize = 9, status = Pending, chunks = Some [],
      receivedChunks = 0, startTime = None, endTime = None\<rparr>"

text \<open>
  The sender streams the base64 chunks of \<open>abc\<close>, \<open>def\<close> and \<open>ghi\<close> in the order 0, 2, 1.
\<close>

definition st_chunk0 :: server where
  "st_chunk0 =
     handleMessage 100 5000 ''r5'' ''device-yaelai'' (In_fileChunk ''t1'' 0 3 ''YWJj'' 9)
       st_offer"

definition st_chunk2 :: server where
  "st_chunk2 =
     handleMessage 100 5001 ''r6'' ''device-yaelai'' (In_fileChunk ''t1'' 2 3 ''Z2hp'' 9)
       st_chunk0"

definition st_done :: server where
  "st_done =
     handleMessage 100 5002 ''r7'' ''device-yaelai'' (In_fileChunk ''t1'' 1 3 ''ZGVm'' 9)
       st_chunk2"

text \<open>The sender cancels the offered transfer, once and twice.\<close>

definition st_cancel :: server where
  "st_cancel =
     handleMessage 100 5000 ''r5'' ''device-yaelai'' (In_fileCancel ''t1'') st_offer"

definition st_cancel2 :: server where
  "st_cancel2 =
     handleMessage 100 6000 ''r6'' ''device-yaelai'' (In_fileCancel ''t1'') st_cancel"

text \<open>The transfer once the chunks 0 and 2 are buffered.\<close>

definition transfer_t1_02 :: transfer where
  "transfer_t1_02 =
     transfer_t1\<lparr>chunks := Some [Some ''YWJj'', None, Some ''Z2hp''], receivedChunks := 2\<rparr>"

text \<open>
  One client connects on socket 1 and, with the same user agent and address, again on
  socket 3.
\<close>

definition st_first :: server where
  "st_first = on_connection 1 req_wifi 1000 initial_server"

definition st_second :: server where
  "st_second = on_connection 3 req_wifi 2000 st_first"

text \<open>
  Two clients connect on the sockets 1 and 2; the first creates the room \<open>Foo\<close>, the
  second the room \<open>Bar\<close>.
\<close>

definition st_two :: server where
  "st_two = on_connection 2 req_cell 1000 (on_connection 1 req_wifi 1000 initial_server)"

definition st_foo :: server where
  "st_foo = on_message 100 1 2000 ''abc123def'' (Some (In_createRoom (Some ''Foo'') None)) st_two"

definition st_bar :: server where
  "st_bar = on_message 100 2 3000 ''xyz789ghi'' (Some (In_createRoom (Some ''Bar'') None)) st_foo"

text \<open>
  A client connects on socket 1 and again on socket 3 and creates the room \<open>Foo\<close>, a
  second client connects on socket 2 and joins it, and socket 1 closes.
\<close>

definition st_rebound :: server where
  "st_rebound =
     on_close 1 5000
       (on_message 100 2 4000 [] (Some (In_joinRoom (Some ''foo'') None))
          (on_message 100 3 3000 ''abc123def'' (Some (In_createRoom (Some ''Foo'') None))
             (on_connection 2 req_cell 2000
                (on_connection 3 req_wifi 1500
                   (on_connection 1 req_wifi 1000 initial_server)))))"

text \<open>The sender's socket has closed, and the janitor has removed the sender.\<close>

definition st_chunk2_closed :: server where
  "st_chunk2_closed = on_close 1 6000 st_chunk2"

definition st_chunk2_swept :: server where
  "st_chunk2_swept = sweep_device 4000000 st_chunk2_closed
     (''device-yaelai'', device_a\<lparr>ws := None, online := False, lastSeen := 6000\<rparr>)"

text \<open>
  A restart. The catalogue files hold one device and the room \<open>Foo\<close> with that device
  as its member; the client then connects again on socket 2. In the second start the
  device catalogue is empty, as it is after a damaged \<open>devices.json\<close> has been reset,
  while the room catalogue still lists the device.
\<close>

definition saved_devices :: "(string \<times> device) list" where
  "saved_devices = [(''device-yaem17'', device_b)]"

definition saved_rooms :: "(string \<times> room) list" where
  "saved_rooms =
     [(''room-2000-abc123def'',
       \<lparr>roomName = ''Foo'', created = 2000, createdBy = ''device-yaem17'',
        members = [''device-yaem17'']\<rparr>)]"

definition st_restart :: server where
  "st_restart = on_connection 2 req_cell 5000 (startup saved_devices saved_rooms)"

definition st_restart_stale :: server where
  "st_restart_stale = on_connection 2 req_cell 5000 (startup [] saved_rooms)"

section \<open>Properties of the identity hasher\<close>

lemma startsWith_map: "startsWith s p \<Longrightarrow> startsWith (map f s) (map f p)"
proof -
  assume "startsWith s p"
  then have "map f (take (length p) s) = map f p" by (simp add: startsWith_def)
  then show ?thesis by (simp add: startsWith_def take_map)
qed

lemma js_includes_map: "js_includes s p \<Longrightarrow> js_includes (map f s) (map f p)"
proof (induction s)
  case Nil
  then show ?case by simp
next
  case (Cons c cs)
  from Cons.prems have "startsWith (c # cs) p \<or> js_includes cs p" by simp
  then show ?case
  proof
    assume "startsWith (c # cs) p"
    then have "startsWith (map f (c # cs)) (map f p)" by (rule startsWith_map)
    then show ?thesis by simp
  next
    assume "js_includes cs p"
    then have "js_includes (map f cs) (map f p)" by (rule Cons.IH)
    then show ?thesis by simp
  qed
qed

lemma toLowerCase_iPhone: "toLowerCase ''iPhone'' = ''iphone''"
  by code_simp

lemma toLowerCase_iPad: "toLowerCase ''iPad'' = ''ipad''"
  by code_simp

lemma toLowerCase_iPod: "toLowerCase ''iPod'' = ''ipod''"
  by code_simp

lemma isIOS_regex_imp_isIOS_ua: "isIOS_regex ua \<Longrightarrow> isIOS_ua ua"
  unfolding isIOS_regex_def isIOS_ua_def Let_def toLowerCase_def
  using js_includes_map [of ua "''iPhone''" toLowerCase_char]
    js_includes_map [of ua "''iPad''" toLowerCase_char]
    js_includes_map [of ua "''iPod''" toLowerCase_char]
    toLowerCase_iPhone toLowerCase_iPad toLowerCase_iPod
  unfolding toLowerCase_def by metis

lemma inv31: "(3186588639 :: 32 word) * 31 = 1"
  by simp

lemma mult31_inj: "31 * h1 = 31 * h2 \<Longrightarrow> h1 = h2" for h1 h2 :: "32 word"
proof -
  assume a: "31 * h1 = 31 * h2"
  have "h1 = (3186588639 * 31) * h1" by (simp only: inv31 mult_1)
  also have "\<dots> = 3186588639 * (31 * h1)" by (simp only: mult.assoc)
  also have "\<dots> = 3186588639 * (31 * h2)" by (simp only: a)
  also have "\<dots> = (3186588639 * 31) * h2" by (simp only: mult.assoc)
  also have "\<dots> = h2" by (simp only: inv31 mult_1)
  finally show ?thesis .
qed

lemma hashStep_inj_h: "hashStep h1 c = hashStep h2 c \<Longrightarrow> h1 = h2"
proof -
  assume a: "hashStep h1 c = hashStep h2 c"
  have e: "push_bit 5 h - h = 31 * h" for h :: "32 word"
    by (simp add: push_bit_eq_mult)
  from a have "31 * h1 = 31 * h2"
    by (simp add: hashStep_def e)
  then show ?thesis by (rule mult31_inj)
qed

lemma word_of_char_inj:
  "(of_nat (of_char c1) :: 32 word) = of_nat (of_char c2) \<Longrightarrow> c1 = c2"
proof -
  assume a: "(of_nat (of_char c1) :: 32 word) = of_nat (of_char c2)"
  have r: "unat (of_nat (of_char c) :: 32 word) = of_char c" for c
  proof -
    have "(of_char c :: nat) < 2 ^ 32"
      by (rule less_trans [OF nat_of_char_less_256]) simp
    then show ?thesis by (simp add: unat_of_nat)
  qed
  from a have "unat (of_nat (of_char c1) :: 32 word) = unat (of_nat (of_char c2) :: 32 word)"
    by simp
  then have "(of_char c1 :: nat) = of_char c2" by (simp only: r)
  then show ?thesis by simp
qed

lemma hashStep_inj_c: "hashStep h c1 = hashStep h c2 \<Longrightarrow> c1 = c2"
  by (rule word_of_char_inj) (simp add: hashStep_def)

lemma foldl_hashStep_inj: "foldl hashStep h1 l = foldl hashStep h2 l \<Longrightarrow> h1 = h2"
  by (induction l arbitrary: h1 h2) (auto dest: hashStep_inj_h)

lemma hashSeed_address_inj:
  "hashSeed (ua @ c1 # l) = hashSeed (ua @ c2 # l) \<Longrightarrow> c1 = c2"
proof -
  assume "hashSeed (ua @ c1 # l) = hashSeed (ua @ c2 # l)"
  then have "foldl hashStep (hashStep (foldl hashStep 0 ua) c1) l =
             foldl hashStep (hashStep (foldl hashStep 0 ua) c2) l"
    by (simp add: hashSeed_def)
  then have "hashStep (foldl hashStep 0 ua) c1 = hashStep (foldl hashStep 0 ua) c2"
    by (rule foldl_hashStep_inj)
  then show ?thesis by (rule hashStep_inj_c)
qed

lemma distinct_digits36: "distinct digits36"
  by (simp add: digits36_def)

lemma length_digits36: "length digits36 = 36"
  by (simp add: digits36_def)

lemma length_toString36_small: "0 \<le> n \<Longrightarrow> n < 36 \<Longrightarrow> length (toString36 n) = 1"
  by (simp add: toString36.simps)

lemma length_toString36_large: "36 \<le> n \<Longrightarrow> 2 \<le> length (toString36 n)"
proof -
  assume n: "36 \<le> n"
  then have "0 \<le> n div 36" by simp
  then have "1 \<le> length (toString36 (n div 36))"
    by (subst toString36.simps) simp
  with n show ?thesis
    by (subst toString36.simps) simp
qed

lemma toString36_inj: "0 \<le> n \<Longrightarrow> 0 \<le> m \<Longrightarrow> toString36 n = toString36 m \<Longrightarrow> n = m"
proof (induction n arbitrary: m rule: toString36.induct)
  case (1 n)
  note n0 = \<open>0 \<le> n\<close> and m0 = \<open>0 \<le> m\<close> and eq = \<open>toString36 n = toString36 m\<close>
  show ?case
  proof (cases "n < 36")
    case True
    note n = this
    show ?thesis
    proof (cases "m < 36")
      case True
      from eq n True n0 m0 have "digits36 ! nat n = digits36 ! nat m"
        by (simp add: toString36.simps)
      with n True n0 m0 show ?thesis
        by (simp add: nth_eq_iff_index_eq distinct_digits36 length_digits36)
    next
      case False
      then have "2 \<le> length (toString36 m)" by (simp add: length_toString36_large)
      moreover from n n0 have "length (toString36 n) = 1" by (simp add: length_toString36_small)
      ultimately show ?thesis using eq by simp
    qed
  next
    case False
    note n = this
    show ?thesis
    proof (cases "m < 36")
      case True
      from n have "2 \<le> length (toString36 n)" by (simp add: length_toString36_large)
      moreover from True m0 have "length (toString36 m) = 1" by (simp add: length_toString36_small)
      ultimately show ?thesis using eq by simp
    next
      case False
      have en: "toString36 n = toString36 (n div 36) @ [digits36 ! nat (n mod 36)]"
        using n n0 by (subst toString36.simps) simp
      have em: "toString36 m = toString36 (m div 36) @ [digits36 ! nat (m mod 36)]"
        using False m0 by (subst toString36.simps) simp
      from eq en em have a: "toString36 (n div 36) = toString36 (m div 36)"
        and b: "digits36 ! nat (n mod 36) = digits36 ! nat (m mod 36)" by simp_all
      have nn: "\<not> n < 0" using n0 by simp
      have dn: "0 \<le> n div 36" using n0 by simp
      have dm: "0 \<le> m div 36" using m0 by simp
      have d: "n div 36 = m div 36"
        by (rule "1.IH"(2) [OF nn n dn dm a])
      have rn: "nat (n mod 36) < 36" and rm: "nat (m mod 36) < 36" by simp_all
      from b rn rm have "nat (n mod 36) = nat (m mod 36)"
        by (simp only: nth_eq_iff_index_eq [OF distinct_digits36] length_digits36)
      then have r: "n mod 36 = m mod 36" by simp
      have "n = 36 * (n div 36) + n mod 36" by simp
      also have "\<dots> = 36 * (m div 36) + m mod 36" by (simp only: d r)
      also have "\<dots> = m" by simp
      finally show ?thesis .
    qed
  qed
qed

lemma abs_sint_eq:
  "\<bar>sint a\<bar> = \<bar>sint b\<bar> \<Longrightarrow> a = b \<or> a = - b" for a b :: "32 word"
proof -
  assume "\<bar>sint a\<bar> = \<bar>sint b\<bar>"
  then have "sint a = sint b \<or> sint a = - sint b" by linarith
  then show ?thesis
  proof
    assume "sint a = sint b"
    then show ?thesis by (simp add: signed_word_eqI)
  next
    assume "sint a = - sint b"
    then have "word_of_int (sint a) = (word_of_int (- sint b) :: 32 word)" by simp
    then have "a = - b" by simp
    then show ?thesis by simp
  qed
qed
lemma absToString36_eq: "absToString36 a = absToString36 b \<Longrightarrow> a = b \<or> a = - b"
  unfolding absToString36_def by (rule abs_sint_eq) (rule toString36_inj; simp)

lemma client_ip_forwarded:
  "a \<noteq> [] \<Longrightarrow> client_ip (r\<lparr>headers := (''x-forwarded-for'', a) # headers r\<rparr>) = Some a"
  by (simp add: client_ip_def header_def js_or_def js_truthy_def)

lemma header_language_forwarded:
  "header (r\<lparr>headers := (''x-forwarded-for'', a) # headers r\<rparr>) ''accept-language'' =
   header r ''accept-language''"
  by (simp add: header_def)

lemma device_id_forwarded:
  "\<not> isIOS_ua ua \<Longrightarrow>
   generateStableDeviceId ua (r\<lparr>headers := (''x-forwarded-for'', [c]) # headers r\<rparr>) =
   ''device-'' @ absToString36 (hashSeed (ua @ c # or_empty (header r ''accept-language'')))"
  by (simp add: generateStableDeviceId_def client_ip_forwarded header_language_forwarded
      or_empty_def js_or_def js_truthy_def)

lemma three_hashes:
  fixes w0 w1 w2 :: "32 word"
  assumes "w0 \<noteq> w1" "w0 \<noteq> w2" "w1 \<noteq> w2"
  shows "absToString36 w0 \<noteq> x \<or> absToString36 w1 \<noteq> x \<or> absToString36 w2 \<noteq> x"
proof (rule ccontr)
  assume "\<not> ?thesis"
  then have e1: "absToString36 w0 = absToString36 w1" and e2: "absToString36 w0 = absToString36 w2"
    by simp_all
  from e1 assms(1) have "w0 = - w1" by (auto dest: absToString36_eq)
  moreover from e2 assms(2) have "w0 = - w2" by (auto dest: absToString36_eq)
  ultimately have "w1 = w2" by simp
  with assms(3) show False by simp
qed

lemma device_id_depends_on_address:
  assumes "\<not> isIOS_ua ua"
  shows "\<exists>a. generateStableDeviceId ua (r\<lparr>headers := (''x-forwarded-for'', a) # headers r\<rparr>)
             \<noteq> generateStableDeviceId ua r"
proof -
  let ?l = "or_empty (header r ''accept-language'')"
  let ?w = "\<lambda>c. hashSeed (ua @ c # ?l)"
  obtain x where x: "generateStableDeviceId ua r = ''device-'' @ x"
    using assms by (simp add: generateStableDeviceId_def Let_def)
  have "?w CHR ''0'' \<noteq> ?w CHR ''1''" "?w CHR ''0'' \<noteq> ?w CHR ''2''" "?w CHR ''1'' \<noteq> ?w CHR ''2''"
    by (auto dest: hashSeed_address_inj)
  then have "absToString36 (?w CHR ''0'') \<noteq> x \<or> absToString36 (?w CHR ''1'') \<noteq> x \<or>
             absToString36 (?w CHR ''2'') \<noteq> x"
    by (rule three_hashes)
  then have "\<exists>c. generateStableDeviceId ua (r\<lparr>headers := (''x-forwarded-for'', [c]) # headers r\<rparr>)
             \<noteq> generateStableDeviceId ua r"
    using assms by (auto simp: device_id_forwarded x)
  then show ?thesis by blast
qed

lemma ios_id: "isIOS_ua ua \<Longrightarrow> generateStableDeviceId ua r =
   ''ios-'' @ absToString36 (hashSeed (ua @ or_empty (header r ''accept-language'')))"
  by (simp add: generateStableDeviceId_def)

text \<open>
  Claim C5, as the code has it. The device id is a function of the user agent, the
  resolved client address and the \<open>accept-language\<close> header alone. For every user
  agent whose lower-cased form contains \<open>iphone\<close>, \<open>ipad\<close> or \<open>ipod\<close>, which includes
  every match of \<open>iPhone|iPad|iPod\<close>, the id does not depend on the client address and
  starts with \<open>ios-\<close>. For every other user agent the id starts with \<open>device-\<close> and
  depends on the address: some forwarded address yields a different id.
\<close>

theorem generateStableDeviceId_address:
  "(\<forall>ua r1 r2. client_ip r1 = client_ip r2 \<and>
       header r1 ''accept-language'' = header r2 ''accept-language'' \<longrightarrow>
       generateStableDeviceId ua r1 = generateStableDeviceId ua r2) \<and>
   (\<forall>ua. isIOS_regex ua \<longrightarrow> isIOS_ua ua) \<and>
   (\<forall>ua r1 r2. isIOS_ua ua \<and>
       header r1 ''accept-language'' = header r2 ''accept-language'' \<longrightarrow>
       generateStableDeviceId ua r1 = generateStableDeviceId ua r2 \<and>
       take 4 (generateStableDeviceId ua r1) = ''ios-'') \<and>
   (\<forall>ua r. \<not> isIOS_ua ua \<longrightarrow>
       take 7 (generateStableDeviceId ua r) = ''device-'' \<and>
       (\<exists>a. generateStableDeviceId ua (r\<lparr>headers := (''x-forwarded-for'', a) # headers r\<rparr>)
             \<noteq> generateStableDeviceId ua r))"
proof (intro conjI allI impI)
  fix ua r1 r2
  assume "client_ip r1 = client_ip r2 \<and>
       header r1 ''accept-language'' = header r2 ''accept-language''"
  then show "generateStableDeviceId ua r1 = generateStableDeviceId ua r2"
    by (simp add: generateStableDeviceId_def)
next
  fix ua assume "isIOS_regex ua" then show "isIOS_ua ua" by (rule isIOS_regex_imp_isIOS_ua)
next
  fix ua r1 r2
  assume a: "isIOS_ua ua \<and> header r1 ''accept-language'' = header r2 ''accept-language''"
  then show "generateStableDeviceId ua r1 = generateStableDeviceId ua r2"
    by (simp add: ios_id)
  from a show "take 4 (generateStableDeviceId ua r1) = ''ios-''"
    by (simp add: ios_id)
next
  fix ua r
  assume a: "\<not> isIOS_ua ua"
  then show "take 7 (generateStableDeviceId ua r) = ''device-''"
    by (simp add: generateStableDeviceId_def Let_def)
  from a show "\<exists>a. generateStableDeviceId ua (r\<lparr>headers := (''x-forwarded-for'', a) # headers r\<rparr>)
             \<noteq> generateStableDeviceId ua r"
    by (rule device_id_depends_on_address)
qed


theorem generateStableDeviceId_address_witness:
  "isIOS_regex ''Mozilla (iPhone)'' \<and> isIOS_ua ''Mozilla (iPhone)'' \<and>
   client_ip req_wifi \<noteq> client_ip req_cell \<and>
   header req_wifi ''accept-language'' = header req_cell ''accept-language'' \<and>
   generateStableDeviceId ''Mozilla (iPhone)'' req_wifi =
     generateStableDeviceId ''Mozilla (iPhone)'' req_cell \<and>
   take 4 (generateStableDeviceId ''Mozilla (iPhone)'' req_wifi) = ''ios-'' \<and>
   \<not> isIOS_ua ''Firefox'' \<and>
   take 7 (generateStableDeviceId ''Firefox'' req_wifi) = ''device-''"
proof -
  have r: "isIOS_regex ''Mozilla (iPhone)''" by code_simp
  have i: "isIOS_ua ''Mozilla (iPhone)''"
    using generateStableDeviceId_address r by blast
  have a: "client_ip req_wifi \<noteq> client_ip req_cell" by code_simp
  have l: "header req_wifi ''accept-language'' = header req_cell ''accept-language''"
    by code_simp
  have n: "\<not> isIOS_ua ''Firefox''" by code_simp
  from i l have "generateStableDeviceId ''Mozilla (iPhone)'' req_wifi =
       generateStableDeviceId ''Mozilla (iPhone)'' req_cell \<and>
     take 4 (generateStableDeviceId ''Mozilla (iPhone)'' req_wifi) = ''ios-''"
    using generateStableDeviceId_address by blast
  moreover from n have "take 7 (generateStableDeviceId ''Firefox'' req_wifi) = ''device-''"
    using generateStableDeviceId_address by blast
  ultimately show ?thesis using r i a l n by blast
qed

text \<open>
  The claim as written fails for a user agent that does not match \<open>iPhone|iPad|iPod\<close>
  but contains one of the words in another letter case: its id has the prefix
  \<open>ios-\<close>, not \<open>device-\<close>, and is the same for two client addresses.
\<close>

theorem generateStableDeviceId_lowercase_counterexample:
  "\<not> isIOS_regex ''ipad'' \<and>
   client_ip req_wifi \<noteq> client_ip req_cell \<and>
   take 7 (generateStableDeviceId ''ipad'' req_wifi) \<noteq> ''device-'' \<and>
   generateStableDeviceId ''ipad'' req_wifi = ''ios-jk0prp'' \<and>
   generateStableDeviceId ''ipad'' req_cell = ''ios-jk0prp''"
  by code_simp

section \<open>The memory accounting helper\<close>

lemma updateMemoryUsage_Suc:
  "updateMemoryUsage (Suc depth) now delta st =
     (Some (ReferenceError ''MAX_MEMORY_USAGE''),
      st\<lparr>currentMemoryUsage := currentMemoryUsage st + delta\<rparr>)"
  by (simp add: updateMemoryUsage.simps MAX_MEMORY_USAGE_def throw_def)

lemma updateMemoryUsage_0: "updateMemoryUsage 0 now delta st = (Some RangeError, st)"
  by (simp add: updateMemoryUsage.simps throw_def)

lemma updateMemoryUsage_throws: "fst (updateMemoryUsage depth now delta st) \<noteq> None"
  by (cases depth) (simp_all add: updateMemoryUsage_Suc updateMemoryUsage_0)

lemma andThen_throw [simp]: "andThen (Some e, st) g = (Some e, st)"
  by (simp add: andThen_def)

lemma andThen_ok [simp]: "andThen (None, st) g = g st"
  by (simp add: andThen_def)

lemma handleFileCancel_throws:
  assumes "map_of (fileTransfers st) tid = Some t" "chunks t \<noteq> None"
  shows "handleFileCancel (Suc depth) now tid st =
           (Some (ReferenceError ''MAX_MEMORY_USAGE''),
            st\<lparr>currentMemoryUsage := currentMemoryUsage st - totalSize t\<rparr>)"
  using assms by (simp add: handleFileCancel_def updateMemoryUsage_Suc)

lemma handleFileComplete_throws:
  assumes "map_of (fileTransfers st) tid = Some t" "chunks t \<noteq> None"
  shows "handleFileComplete (Suc depth) now tid st =
           (Some (ReferenceError ''MAX_MEMORY_USAGE''),
            st\<lparr>currentMemoryUsage := currentMemoryUsage st - totalSize t\<rparr>)"
  using assms by (simp add: handleFileComplete_def updateMemoryUsage_Suc)

lemma handleTransferComplete_throws:
  assumes "map_of (fileTransfers st) tid = Some t" "chunks t \<noteq> None"
  shows "handleTransferComplete (Suc depth) now tid st =
           (Some (ReferenceError ''MAX_MEMORY_USAGE''),
            st\<lparr>currentMemoryUsage := currentMemoryUsage st - totalSize t\<rparr>)"
  using assms by (simp add: handleTransferComplete_def updateMemoryUsage_Suc)

lemma sweep_transfer_throws:
  assumes "map_of (fileTransfers st) tid = Some t" "chunks t \<noteq> None"
    "now - timestamp t > 60 * 60 * 1000"
  shows "sweep_transfer (Suc depth) now tid st =
           (Some (ReferenceError ''MAX_MEMORY_USAGE''),
            st\<lparr>currentMemoryUsage := currentMemoryUsage st - totalSize t\<rparr>)"
  using assms by (simp add: sweep_transfer_def updateMemoryUsage_Suc)

lemma sweep_transfer_keeps:
  assumes "map_of (fileTransfers st) tid = Some t" "chunks t \<noteq> None"
  shows "map_of (fileTransfers (snd (sweep_transfer depth now k st))) tid = Some t"
proof (cases "k = tid")
  case True
  show ?thesis
  proof (cases depth)
    case 0
    with True assms show ?thesis by (simp add: sweep_transfer_def updateMemoryUsage_0 ok_def)
  next
    case (Suc d)
    with True assms show ?thesis
      by (simp add: sweep_transfer_def updateMemoryUsage_Suc ok_def)
  qed
next
  case False
  show ?thesis
  proof (cases "map_of (fileTransfers st) k")
    case None
    with assms show ?thesis by (simp add: sweep_transfer_def ok_def)
  next
    case (Some u)
    show ?thesis
    proof (cases depth)
      case 0
      with Some False assms show ?thesis
        by (simp add: sweep_transfer_def updateMemoryUsage_0 ok_def delete_conv')
    next
      case (Suc d)
      with Some False assms show ?thesis
        by (simp add: sweep_transfer_def updateMemoryUsage_Suc ok_def delete_conv')
    qed
  qed
qed

lemma sweep_transfers_keep:
  assumes "map_of (fileTransfers (snd r)) tid = Some t" "chunks t \<noteq> None"
  shows "map_of (fileTransfers (snd (foldl (\<lambda>r k. andThen r (sweep_transfer depth now k)) r ks)))
           tid = Some t"
  using assms
proof (induction ks arbitrary: r)
  case Nil
  then show ?case by simp
next
  case (Cons k ks)
  have "map_of (fileTransfers (snd (andThen r (sweep_transfer depth now k)))) tid = Some t"
  proof (cases r)
    case (Pair e st)
    show ?thesis
    proof (cases e)
      case None
      with Pair Cons.prems show ?thesis by (simp add: sweep_transfer_keeps)
    next
      case (Some err)
      with Pair Cons.prems show ?thesis by simp
    qed
  qed
  then show ?case using Cons.IH Cons.prems(2) by simp
qed

lemma fileTransfers_ws_close [simp]: "fileTransfers (ws_close w c r st) = fileTransfers st"
  by (simp add: ws_close_def)

lemma fileTransfers_modify_room [simp]: "fileTransfers (modify_room rid f st) = fileTransfers st"
  by (simp add: modify_room_def)

lemma fileTransfers_sweep_connection [simp]:
  "fileTransfers (sweep_connection now st e) = fileTransfers st"
  by (cases e) (simp add: sweep_connection_def Let_def)

lemma fileTransfers_sweep_device [simp]:
  "fileTransfers (sweep_device now st e) = fileTransfers st"
  by (cases e) (simp add: sweep_device_def Let_def split: option.splits)

lemma fileTransfers_foldl_sweep_connection [simp]:
  "fileTransfers (foldl (sweep_connection now) st es) = fileTransfers st"
  by (induction es arbitrary: st) simp_all

lemma fileTransfers_foldl_sweep_device [simp]:
  "fileTransfers (foldl (sweep_device now) st es) = fileTransfers st"
  by (induction es arbitrary: st) simp_all

lemma sweep_keeps:
  assumes "map_of (fileTransfers st) tid = Some t" "chunks t \<noteq> None"
  shows "map_of (fileTransfers (snd (sweep depth now st))) tid = Some t"
  unfolding sweep_def Let_def
  by (rule sweep_transfers_keep) (use assms in \<open>simp_all add: ok_def\<close>)


text \<open>
  Claim C9. Every call of \<open>updateMemoryUsage\<close> throws; with a stack frame left it
  first adds the delta to \<open>currentMemoryUsage\<close> and then throws the \<open>ReferenceError\<close> of
  \<open>MAX_MEMORY_USAGE\<close>. So when the transfer named by a \<open>fileCancel\<close>, \<open>fileComplete\<close> or
  \<open>transferComplete\<close> frame, or visited by the janitor after its hour, has its chunks
  field set, the handler ends with that error and has changed the counter only: the
  statement that deletes the transfer is not run, and a whole janitor sweep leaves the
  transfer registered.
\<close>

theorem updateMemoryUsage_always_throws:
  "(\<forall>depth now delta st. fst (updateMemoryUsage depth now delta st) \<noteq> None) \<and>
   (\<forall>depth now delta st.
      updateMemoryUsage (Suc depth) now delta st =
        (Some (ReferenceError ''MAX_MEMORY_USAGE''),
         st\<lparr>currentMemoryUsage := currentMemoryUsage st + delta\<rparr>)) \<and>
   (\<forall>depth now tid st t.
      map_of (fileTransfers st) tid = Some t \<and> chunks t \<noteq> None \<longrightarrow>
        handleFileCancel (Suc depth) now tid st =
          (Some (ReferenceError ''MAX_MEMORY_USAGE''),
           st\<lparr>currentMemoryUsage := currentMemoryUsage st - totalSize t\<rparr>) \<and>
        handleFileComplete (Suc depth) now tid st =
          (Some (ReferenceError ''MAX_MEMORY_USAGE''),
           st\<lparr>currentMemoryUsage := currentMemoryUsage st - totalSize t\<rparr>) \<and>
        handleTransferComplete (Suc depth) now tid st =
          (Some (ReferenceError ''MAX_MEMORY_USAGE''),
           st\<lparr>currentMemoryUsage := currentMemoryUsage st - totalSize t\<rparr>) \<and>
        (now - timestamp t > 60 * 60 * 1000 \<longrightarrow>
           sweep_transfer (Suc depth) now tid st =
             (Some (ReferenceError ''MAX_MEMORY_USAGE''),
              st\<lparr>currentMemoryUsage := currentMemoryUsage st - totalSize t\<rparr>)) \<and>
        map_of (fileTransfers (snd (sweep depth now st))) tid = Some t)"
  by (intro conjI allI impI)
    (simp_all add: updateMemoryUsage_throws updateMemoryUsage_Suc handleFileCancel_throws
      handleFileComplete_throws handleTransferComplete_throws sweep_transfer_throws
      sweep_keeps)

theorem updateMemoryUsage_always_throws_witness:
  "map_of (fileTransfers st_offer) ''t1'' = Some transfer_t1 \<and>
   chunks transfer_t1 \<noteq> None \<and>
   handleFileCancel (Suc 0) 5000 ''t1'' st_offer =
     (Some (ReferenceError ''MAX_MEMORY_USAGE''),
      st_offer\<lparr>currentMemoryUsage := currentMemoryUsage st_offer - totalSize transfer_t1\<rparr>) \<and>
   3604001 - timestamp transfer_t1 > 60 * 60 * 1000 \<and>
   sweep_transfer (Suc 0) 3604001 ''t1'' st_offer =
     (Some (ReferenceError ''MAX_MEMORY_USAGE''),
      st_offer\<lparr>currentMemoryUsage := currentMemoryUsage st_offer - totalSize transfer_t1\<rparr>) \<and>
   map_of (fileTransfers (snd (sweep 1 3604001 st_offer))) ''t1'' = Some transfer_t1"
proof -
  have h: "map_of (fileTransfers st_offer) ''t1'' = Some transfer_t1 \<and>
      chunks transfer_t1 \<noteq> None"
    by code_simp
  have e: "3604001 - timestamp transfer_t1 > 60 * 60 * 1000"
    by code_simp
  from h e show ?thesis
    using updateMemoryUsage_always_throws by blast
qed

section \<open>Cancelling a transfer\<close>

text \<open>
  Claim C7 at a concrete input. After the offer of \<open>t1\<close> (nine bytes), the sender's
  \<open>fileCancel\<close> is answered with an \<open>error\<close> frame; the transfer is still registered, with
  nine bytes deducted from a counter that never held them. A second \<open>fileCancel\<close>
  deducts nine bytes again, and a later \<open>fileChunk\<close> for \<open>t1\<close> is still stored.
\<close>

theorem fileCancel_keeps_transfer:
  "map_of (fileTransfers st_offer) ''t1'' = Some transfer_t1 \<and>
   currentMemoryUsage st_offer = 0 \<and>
   map_of (fileTransfers st_cancel) ''t1'' = Some transfer_t1 \<and>
   currentMemoryUsage st_cancel = - 9 \<and>
   outbox st_cancel = outbox st_offer @ [(1, Out_error ''Interner Server Fehler'')] \<and>
   map_of (fileTransfers st_cancel2) ''t1'' = Some transfer_t1 \<and>
   currentMemoryUsage st_cancel2 = - 18 \<and>
   map_of (fileTransfers
      (handleMessage 100 7000 ''r7'' ''device-yaelai'' (In_fileChunk ''t1'' 0 3 ''YWJj'' 9)
         st_cancel2)) ''t1'' =
     Some (transfer_t1\<lparr>chunks := Some [Some ''YWJj''], receivedChunks := 1\<rparr>)"
  by code_simp

section \<open>The in-flight byte counter\<close>

text \<open>
  Claim C2 at a concrete input. The offer creates the transfer with the empty array as
  chunks field, which is truthy, so the first \<open>fileChunk\<close> does not run the allocation:
  the counter stays 0 while the transfer is pending with a buffered chunk and an
  advertised size of nine bytes. After the last chunk the transfer is completed, still
  registered with its three buffers, and the counter is still 0. The receiver's
  \<open>fileComplete\<close> then deducts nine bytes and leaves the transfer and its buffers in
  place.
\<close>

theorem counter_ignores_first_chunk:
  "map_of (fileTransfers st_chunk0) ''t1'' =
     Some (transfer_t1\<lparr>chunks := Some [Some ''YWJj''], receivedChunks := 1\<rparr>) \<and>
   currentMemoryUsage st_chunk0 = 0 \<and>
   map_of (fileTransfers st_done) ''t1'' =
     Some (transfer_t1\<lparr>chunks := Some [Some ''YWJj'', Some ''ZGVm'', Some ''Z2hp''],
             receivedChunks := 3, status := Completed, endTime := Some 5002\<rparr>) \<and>
   currentMemoryUsage st_done = 0 \<and>
   map_of (fileTransfers
      (handleMessage 100 6000 ''r8'' ''device-yaem17'' (In_fileComplete ''t1'') st_done)) ''t1'' =
     Some (transfer_t1\<lparr>chunks := Some [Some ''YWJj'', Some ''ZGVm'', Some ''Z2hp''],
             receivedChunks := 3, status := Completed, endTime := Some 5002\<rparr>) \<and>
   currentMemoryUsage
      (handleMessage 100 6000 ''r8'' ''device-yaem17'' (In_fileComplete ''t1'') st_done) = - 9"
  by code_simp

section \<open>Streaming chunks\<close>

lemma fileTransfers_ws_send [simp]: "fileTransfers (ws_send w f st) = fileTransfers st"
  by (simp add: ws_send_def)

lemma devices_ws_send [simp]: "devices (ws_send w f st) = devices st"
  by (simp add: ws_send_def)

lemma rooms_ws_send [simp]: "rooms (ws_send w f st) = rooms st"
  by (simp add: ws_send_def)

lemma sockets_ws_send [simp]: "sockets (ws_send w f st) = sockets st"
  by (simp add: ws_send_def)

lemma readyStateOf_ws_send [simp]: "readyStateOf (ws_send w f st) = readyStateOf st"
  by (rule ext) (simp add: readyStateOf_def)

lemma fileTransfers_send_if_bound [simp]:
  "fileTransfers (send_if_bound d f st) = fileTransfers st"
  by (simp add: send_if_bound_def split: option.splits)

lemma devices_send_if_bound [simp]: "devices (send_if_bound d f st) = devices st"
  by (simp add: send_if_bound_def split: option.splits)

lemma rooms_send_if_bound [simp]: "rooms (send_if_bound d f st) = rooms st"
  by (simp add: send_if_bound_def split: option.splits)

lemma sockets_send_if_bound [simp]: "sockets (send_if_bound d f st) = sockets st"
  by (simp add: send_if_bound_def split: option.splits)

lemma readyStateOf_send_if_bound [simp]:
  "readyStateOf (send_if_bound d f st) = readyStateOf st"
  by (rule ext) (simp add: readyStateOf_def)

lemma devices_modify_transfer [simp]: "devices (modify_transfer tid f st) = devices st"
  by (simp add: modify_transfer_def)

lemma rooms_modify_transfer [simp]: "rooms (modify_transfer tid f st) = rooms st"
  by (simp add: modify_transfer_def)

lemma sockets_modify_transfer [simp]: "sockets (modify_transfer tid f st) = sockets st"
  by (simp add: modify_transfer_def)

lemma outbox_modify_transfer [simp]: "outbox (modify_transfer tid f st) = outbox st"
  by (simp add: modify_transfer_def)

lemma readyStateOf_modify_transfer [simp]:
  "readyStateOf (modify_transfer tid f st) = readyStateOf st"
  by (rule ext) (simp add: readyStateOf_def)

lemma map_of_modify_transfer:
  "map_of (fileTransfers (modify_transfer tid f st)) k =
     (if k = tid then map_option f (map_of (fileTransfers st) tid)
      else map_of (fileTransfers st) k)"
  by (simp add: modify_transfer_def map_of_map_entry split: option.splits)

text \<open>What \<open>completeTransfer\<close> leaves alone.\<close>

lemma completeTransfer_state [simp]:
  "fileTransfers (snd (completeTransfer now tid t sender st)) = fileTransfers st"
  "devices (snd (completeTransfer now tid t sender st)) = devices st"
  "rooms (snd (completeTransfer now tid t sender st)) = rooms st"
  "sockets (snd (completeTransfer now tid t sender st)) = sockets st"
  by (simp_all add: completeTransfer_def Let_def split: option.splits list.splits prod.splits)

lemma completeTransfer_transfer [simp]:
  "chunks (fst (completeTransfer now tid t sender st)) = chunks t"
  "receivedChunks (fst (completeTransfer now tid t sender st)) = receivedChunks t"
  "files (fst (completeTransfer now tid t sender st)) = files t"
  "fromDevice (fst (completeTransfer now tid t sender st)) = fromDevice t"
  "fromDeviceId (fst (completeTransfer now tid t sender st)) = fromDeviceId t"
  "targetDeviceId (fst (completeTransfer now tid t sender st)) = targetDeviceId t"
  "totalSize (fst (completeTransfer now tid t sender st)) = totalSize t"
  by (simp_all add: completeTransfer_def Let_def split: option.splits list.splits prod.splits)

text \<open>A chunk for a transfer whose chunks field is set: the handler as one expression.\<close>

lemma handleFileChunk_set:
  assumes "map_of (fileTransfers st) tid = Some t" "chunks t = Some a"
  shows "handleFileChunk depth now dev tid i n d fsz st =
     (None,
      (let t2 = chunkStored i d t;
           st2 = modify_transfer tid (\<lambda>t. t2) st;
           sender = map_of (devices st) (fromDeviceId t);
           st3 = send_if_bound sender (Out_uploadProgress tid (Suc (receivedChunks t)) n) st2
       in if Suc (receivedChunks t) = n
          then modify_transfer tid (\<lambda>t. fst (completeTransfer now tid t2 sender st3))
                 (snd (completeTransfer now tid t2 sender st3))
          else st3))"
  using assms
  by (simp add: handleFileChunk_def chunkStored_def Let_def ok_def split: prod.splits)

lemma handleMessage_fileChunk:
  assumes "map_of (fileTransfers st) tid = Some t" "chunks t = Some a"
  shows "handleMessage depth now rnd dev (In_fileChunk tid i n d fsz) st =
           snd (handleFileChunk depth now dev tid i n d fsz st)"
  using assms by (simp add: handleMessage_def dispatch_def handleFileChunk_set)

lemma chunk_step:
  assumes "map_of (fileTransfers st) tid = Some t" "chunks t = Some a"
  shows "\<exists>t'. map_of (fileTransfers (handleMessage depth now rnd dev (In_fileChunk tid i n d fsz) st)) tid
             = Some t' \<and>
           chunks t' = Some (js_array_set i (cleanChunk d) a) \<and>
           receivedChunks t' = Suc (receivedChunks t)"
  using assms
  by (simp add: handleMessage_fileChunk handleFileChunk_set Let_def map_of_modify_transfer
      chunkStored_def)


lemma js_array_get_set:
  "js_array_get (js_array_set i v a) j = (if j = i then Some v else js_array_get a j)"
proof (cases "i < length a")
  case True
  then show ?thesis by (auto simp: js_array_get_def js_array_set_def)
next
  case False
  then show ?thesis
    by (auto simp: js_array_get_def js_array_set_def nth_append)
qed

lemma length_js_array_set: "length (js_array_set i v a) = max (length a) (Suc i)"
  by (auto simp: js_array_set_def)

lemma set_bufferedIndices: "set (bufferedIndices a) = {j. js_array_get a j \<noteq> None}"
  by (auto simp: bufferedIndices_def js_array_get_def)

lemma distinct_bufferedIndices: "distinct (bufferedIndices a)"
  by (simp add: bufferedIndices_def)

lemma set_bufferedIndices_set:
  "set (bufferedIndices (js_array_set i v a)) = insert i (set (bufferedIndices a))"
  by (auto simp: set_bufferedIndices js_array_get_set)

lemma stream_counts:
  assumes "map_of (fileTransfers st) tid = Some t" "chunks t = Some a"
  shows "\<exists>t' a'. map_of (fileTransfers (handleMessages depth now dev (map (chunkFrame tid) fs) st)) tid
             = Some t' \<and>
           chunks t' = Some a' \<and>
           receivedChunks t' = receivedChunks t + length fs \<and>
           set (bufferedIndices a') = set (bufferedIndices a) \<union> set (map fst fs)"
  using assms
proof (induction fs arbitrary: st t a)
  case Nil
  then show ?case by (simp add: handleMessages_def)
next
  case (Cons f fs)
  obtain i n d fsz where f: "f = (i, n, d, fsz)" by (cases f) auto
  let ?st1 = "handleMessage depth now [] dev (In_fileChunk tid i n d fsz) st"
  from chunk_step [OF Cons.prems, of depth now "[]" dev i n d fsz]
  obtain t1 where t1: "map_of (fileTransfers ?st1) tid = Some t1"
    "chunks t1 = Some (js_array_set i (cleanChunk d) a)"
    "receivedChunks t1 = Suc (receivedChunks t)"
    by blast
  from Cons.IH [OF t1(1) t1(2)]
  obtain t' a' where r: "map_of (fileTransfers (handleMessages depth now dev (map (chunkFrame tid) fs) ?st1)) tid = Some t'"
     "chunks t' = Some a'" "receivedChunks t' = receivedChunks t1 + length fs"
     "set (bufferedIndices a') = set (bufferedIndices (js_array_set i (cleanChunk d) a)) \<union> set (map fst fs)"
    by blast
  have e: "handleMessages depth now dev (map (chunkFrame tid) (f # fs)) st =
           handleMessages depth now dev (map (chunkFrame tid) fs) ?st1"
    by (simp add: handleMessages_def chunkFrame_def f)
  show ?case
    unfolding e using r t1(3) by (auto simp: set_bufferedIndices_set f)
qed

text \<open>
  Claim C8, as the code has it. The handler stores and counts every \<open>fileChunk\<close> frame
  without looking at its index. From the offer on, \<open>receivedChunks\<close> is the number of
  frames handled and the buffered indices are exactly the indices the frames carried.
  So the number of distinct buffered chunks is at most \<open>receivedChunks\<close>; the two are
  equal when no index came twice, and when besides every index is below a bound then
  \<open>receivedChunks\<close> is at most that bound and every buffered index is below it.
\<close>

theorem chunk_count_follows_frames:
  assumes "map_of (fileTransfers st) tid = Some t" "chunks t = Some []" "receivedChunks t = 0"
  shows "\<exists>t' a.
     map_of (fileTransfers (handleMessages depth now dev (map (chunkFrame tid) fs) st)) tid
       = Some t' \<and>
     chunks t' = Some a \<and>
     receivedChunks t' = length fs \<and>
     set (bufferedIndices a) = set (map fst fs) \<and>
     length (bufferedIndices a) \<le> receivedChunks t' \<and>
     (distinct (map fst fs) \<longrightarrow> length (bufferedIndices a) = receivedChunks t') \<and>
     (\<forall>n. distinct (map fst fs) \<and> (\<forall>i\<in>set (map fst fs). i < n) \<longrightarrow>
          receivedChunks t' \<le> n \<and> (\<forall>j\<in>set (bufferedIndices a). j < n))"
proof -
  from stream_counts [OF assms(1,2), of depth now dev fs]
  obtain t' a where r:
    "map_of (fileTransfers (handleMessages depth now dev (map (chunkFrame tid) fs) st)) tid = Some t'"
    "chunks t' = Some a" "receivedChunks t' = receivedChunks t + length fs"
    "set (bufferedIndices a) = set (bufferedIndices []) \<union> set (map fst fs)"
    by blast
  have s: "set (bufferedIndices a) = set (map fst fs)"
    using r(4) by (simp add: bufferedIndices_def)
  have n: "receivedChunks t' = length fs" using r(3) assms(3) by simp
  have c: "length (bufferedIndices a) = card (set (map fst fs))"
    using distinct_card [OF distinct_bufferedIndices, of a] s by simp
  have le: "length (bufferedIndices a) \<le> receivedChunks t'"
    unfolding c n using card_length [of "map fst fs"] by simp
  have eq: "length (bufferedIndices a) = receivedChunks t'" if "distinct (map fst fs)"
    unfolding c n using distinct_card [OF that] by simp
  have bound: "receivedChunks t' \<le> k \<and> (\<forall>j\<in>set (bufferedIndices a). j < k)"
    if d: "distinct (map fst fs)" and b: "\<forall>i\<in>set (map fst fs). i < k" for k
  proof -
    from b have "set (map fst fs) \<subseteq> {0..<k}" by auto
    then have "card (set (map fst fs)) \<le> card {0..<k}" by (intro card_mono) simp_all
    then have "length fs \<le> k" using distinct_card [OF d] by simp
    then show ?thesis using b s n by simp
  qed
  show ?thesis
    using r(1,2) n s le eq bound by blast
qed

theorem chunk_count_follows_frames_witness:
  "map_of (fileTransfers st_offer) ''t1'' = Some transfer_t1 \<and>
   chunks transfer_t1 = Some [] \<and> receivedChunks transfer_t1 = 0 \<and>
   (\<exists>t' a.
      map_of (fileTransfers
        (handleMessages 100 5000 ''device-yaelai''
           (map (chunkFrame ''t1'') [(0, 3, ''YWJj'', 9), (2, 3, ''Z2hp'', 9)]) st_offer)) ''t1''
        = Some t' \<and>
      chunks t' = Some a \<and> receivedChunks t' = 2 \<and>
      set (bufferedIndices a) = {0, 2} \<and> length (bufferedIndices a) = 2 \<and>
      receivedChunks t' \<le> 3 \<and> list_all (\<lambda>j. j < 3) (bufferedIndices a))"
proof -
  have h: "map_of (fileTransfers st_offer) ''t1'' = Some transfer_t1"
    "chunks transfer_t1 = Some []" "receivedChunks transfer_t1 = 0"
    by code_simp+
  have d: "distinct (map fst [(0::nat, 3::nat, ''YWJj'', 9::int), (2, 3, ''Z2hp'', 9)])"
    by simp
  have b: "\<forall>i\<in>set (map fst [(0::nat, 3::nat, ''YWJj'', 9::int), (2, 3, ''Z2hp'', 9)]). i < 3"
    by simp
  from chunk_count_follows_frames [OF h, of 100 5000 "''device-yaelai''"
      "[(0, 3, ''YWJj'', 9), (2, 3, ''Z2hp'', 9)]"]
  obtain t' a where r:
    "map_of (fileTransfers
        (handleMessages 100 5000 ''device-yaelai''
           (map (chunkFrame ''t1'') [(0, 3, ''YWJj'', 9), (2, 3, ''Z2hp'', 9)]) st_offer)) ''t1''
        = Some t'"
    "chunks t' = Some a"
    "receivedChunks t' = length [(0::nat, 3::nat, ''YWJj'', 9::int), (2, 3, ''Z2hp'', 9)]"
    "set (bufferedIndices a) = set (map fst [(0::nat, 3::nat, ''YWJj'', 9::int), (2, 3, ''Z2hp'', 9)])"
    "distinct (map fst [(0::nat, 3::nat, ''YWJj'', 9::int), (2, 3, ''Z2hp'', 9)]) \<longrightarrow>
       length (bufferedIndices a) = receivedChunks t'"
    "\<forall>n. distinct (map fst [(0::nat, 3::nat, ''YWJj'', 9::int), (2, 3, ''Z2hp'', 9)]) \<and>
         (\<forall>i\<in>set (map fst [(0::nat, 3::nat, ''YWJj'', 9::int), (2, 3, ''Z2hp'', 9)]). i < n) \<longrightarrow>
          receivedChunks t' \<le> n \<and> (\<forall>j\<in>set (bufferedIndices a). j < n)"
    by blast
  from r(5) d r(3) have l: "length (bufferedIndices a) = 2" by simp
  from r(6) d b have k: "receivedChunks t' \<le> 3 \<and> (\<forall>j\<in>set (bufferedIndices a). j < 3)"
    by blast
  from r(4) have s: "set (bufferedIndices a) = {0, 2}" by simp
  from r(3) have n: "receivedChunks t' = 2" by simp
  show ?thesis
    using h r(1,2) n s l k by (auto simp: list_all_iff)
qed

text \<open>
  The claim as written fails when the sender repeats an index or sends one beyond the
  declared range: after the offer, four frames with index 0 and a total of three leave
  one buffered chunk and a count of four, and a frame with index 7 is buffered at 7.
\<close>

theorem chunk_count_counterexample:
  "map_of (fileTransfers
      (handleMessages 100 5000 ''device-yaelai''
         (map (chunkFrame ''t1'')
            [(0, 3, ''YWJj'', 9), (0, 3, ''YWJj'', 9), (0, 3, ''YWJj'', 9), (0, 3, ''YWJj'', 9)])
         st_offer)) ''t1'' =
     Some (transfer_t1\<lparr>chunks := Some [Some ''YWJj''], receivedChunks := 4,
             status := Completed, endTime := Some 5000\<rparr>) \<and>
   bufferedIndices [Some ''YWJj''] = [0] \<and>
   map_of (fileTransfers
      (handleMessages 100 5000 ''device-yaelai''
         (map (chunkFrame ''t1'') [(7, 3, ''YWJj'', 9)]) st_offer)) ''t1'' =
     Some (transfer_t1\<lparr>chunks := Some [None, None, None, None, None, None, None, Some ''YWJj''],
             receivedChunks := 1\<rparr>) \<and>
   bufferedIndices [None, None, None, None, None, None, None, Some ''YWJj''] = [7]"
  by code_simp

section \<open>Reassembly\<close>

lemma chunk_step_devices:
  assumes "map_of (fileTransfers st) tid = Some t" "chunks t = Some a"
  shows "devices (handleMessage depth now rnd dev (In_fileChunk tid i n d fsz) st) = devices st"
    and "sockets (handleMessage depth now rnd dev (In_fileChunk tid i n d fsz) st) = sockets st"
  using assms
  by (simp_all add: handleMessage_fileChunk handleFileChunk_set Let_def)

lemma outbox_send_if_bound:
  "outbox (send_if_bound (Some sd) f st) = outbox st @ framesTo st (ws sd) f"
  by (simp add: send_if_bound_def framesTo_def ws_send_def split: option.splits)

lemma framesTo_modify_transfer [simp]: "framesTo (modify_transfer tid g st) = framesTo st"
  by (rule ext)+ (simp add: framesTo_def split: option.splits)

lemma framesTo_ws_send [simp]: "framesTo (ws_send w g st) = framesTo st"
  by (rule ext)+ (simp add: framesTo_def split: option.splits)

lemma framesTo_send_if_bound [simp]: "framesTo (send_if_bound d g st) = framesTo st"
  by (rule ext)+ (simp add: framesTo_def split: option.splits)

lemma chunk_step_progress:
  assumes "map_of (fileTransfers st) tid = Some t" "chunks t = Some a"
    "map_of (devices st) (fromDeviceId t) = Some sd"
    "Suc (receivedChunks t) \<noteq> n"
  shows "map_of (fileTransfers (handleMessage depth now rnd dev (In_fileChunk tid i n d fsz) st)) tid
           = Some (chunkStored i d t)"
    and "outbox (handleMessage depth now rnd dev (In_fileChunk tid i n d fsz) st) =
           outbox st @ framesTo st (ws sd) (Out_uploadProgress tid (Suc (receivedChunks t)) n)"
  using assms
  by (simp_all add: handleMessage_fileChunk handleFileChunk_set Let_def map_of_modify_transfer
      outbox_send_if_bound)

lemma chunk_step_complete:
  assumes "map_of (fileTransfers st) tid = Some t" "chunks t = Some a" "files t = file0 # rest"
    "map_of (devices st) (fromDeviceId t) = Some sd"
    "map_of (devices st) (targetDeviceId t) = Some rd" "ws rd = Some wR"
    "map_of (sockets st) wR = Some OPEN"
    "Suc (receivedChunks t) = n"
  shows "outbox (handleMessage depth now rnd dev (In_fileChunk tid i n d fsz) st) =
           outbox st @
           framesTo st (ws sd) (Out_uploadProgress tid n n) @
           [(wR, Out_fileComplete tid (fileName file0)
                   (or_empty (js_or (fileType file0) (Some ''application/octet-stream'')))
                   (fileSize file0) (js_join (js_array_set i (cleanChunk d) a)) (fromDevice t))] @
           framesTo st (ws sd) (Out_transferComplete tid (fileName file0) (displayName rd))"
proof -
  define t2 where "t2 = chunkStored i d t"
  define st2 where "st2 = modify_transfer tid (\<lambda>t. t2) st"
  define st3 where
    "st3 = send_if_bound (Some sd) (Out_uploadProgress tid (Suc (receivedChunks t)) n) st2"
  have e: "handleMessage depth now rnd dev (In_fileChunk tid i n d fsz) st =
     modify_transfer tid (\<lambda>t. fst (completeTransfer now tid t2 (Some sd) st3))
       (snd (completeTransfer now tid t2 (Some sd) st3))"
    using assms(4,8)
    by (simp add: handleMessage_fileChunk [OF assms(1,2)] handleFileChunk_set [OF assms(1,2)]
        Let_def t2_def st2_def st3_def)
  have o3: "outbox st3 = outbox st @ framesTo st (ws sd) (Out_uploadProgress tid n n)"
    using assms(8)
    by (simp add: st3_def outbox_send_if_bound st2_def)
  have r0: "readyStateOf st wR = OPEN"
    using assms(7) by (simp add: readyStateOf_def)
  have r3: "readyStateOf st3 wR = OPEN"
    using assms(7) by (simp add: st3_def st2_def readyStateOf_def)
  have d3: "map_of (devices st3) (targetDeviceId t2) = Some rd"
    using assms(5) by (simp add: st3_def st2_def t2_def chunkStored_def)
  have f2: "files t2 = file0 # rest" "fromDevice t2 = fromDevice t"
    "chunks t2 = Some (js_array_set i (cleanChunk d) a)"
    using assms(2,3) by (simp_all add: t2_def chunkStored_def)
  define fc where "fc = Out_fileComplete tid (fileName file0)
                   (or_empty (js_or (fileType file0) (Some ''application/octet-stream'')))
                   (fileSize file0) (js_join (js_array_set i (cleanChunk d) a)) (fromDevice t)"
  have oe: "(case js_or x (Some y) of None \<Rightarrow> [] | Some ty \<Rightarrow> ty) = or_empty (js_or x (Some y))"
    for x y
    by (simp add: or_empty_def js_or_def js_truthy_def split: option.splits)
  have c: "snd (completeTransfer now tid t2 (Some sd) st3) =
     send_if_bound (Some sd) (Out_transferComplete tid (fileName file0) (displayName rd))
       (ws_send wR fc st3)"
    by (simp add: completeTransfer_def Let_def d3 assms(6) r3 f2 fc_def oe)
  have s3: "framesTo (ws_send wR fc st3) = framesTo st"
    by (simp add: st3_def st2_def)
  have "outbox (snd (completeTransfer now tid t2 (Some sd) st3)) =
     outbox st3 @ [(wR, fc)] @
     framesTo st (ws sd) (Out_transferComplete tid (fileName file0) (displayName rd))"
    by (simp add: c outbox_send_if_bound s3) (simp add: ws_send_def r0 st3_def st2_def)
  then show ?thesis
    by (simp add: e o3 fc_def)
qed

lemma framesTo_uploadProgress:
  "\<forall>f\<in>set (framesTo st wo (Out_uploadProgress tid k n)).
     \<not> isFileComplete (snd f) \<and> \<not> isTransferComplete (snd f)"
  by (simp add: framesTo_def isFileComplete_def isTransferComplete_def split: option.splits)

lemma stream_prefix:
  assumes "map_of (fileTransfers st) tid = Some t" "chunks t = Some a"
    "map_of (devices st) (fromDeviceId t) = Some sd"
    "receivedChunks t + length is < n"
  shows "\<exists>t' fr.
     devices (handleMessages depth now dev (map (\<lambda>i. In_fileChunk tid i n (c i) fsz) is) st)
       = devices st \<and>
     sockets (handleMessages depth now dev (map (\<lambda>i. In_fileChunk tid i n (c i) fsz) is) st)
       = sockets st \<and>
     map_of (fileTransfers
        (handleMessages depth now dev (map (\<lambda>i. In_fileChunk tid i n (c i) fsz) is) st)) tid
       = Some t' \<and>
     chunks t' = Some (foldl (\<lambda>a i. js_array_set i (cleanChunk (c i)) a) a is) \<and>
     receivedChunks t' = receivedChunks t + length is \<and>
     files t' = files t \<and> fromDeviceId t' = fromDeviceId t \<and>
     targetDeviceId t' = targetDeviceId t \<and> fromDevice t' = fromDevice t \<and>
     outbox (handleMessages depth now dev (map (\<lambda>i. In_fileChunk tid i n (c i) fsz) is) st)
       = outbox st @ fr \<and>
     (\<forall>f\<in>set fr. \<not> isFileComplete (snd f) \<and> \<not> isTransferComplete (snd f))"
  using assms
proof (induction "is" arbitrary: st t a)
  case Nil
  then show ?case by (simp add: handleMessages_def)
next
  case (Cons i "is")
  let ?st1 = "handleMessage depth now [] dev (In_fileChunk tid i n (c i) fsz) st"
  let ?t1 = "chunkStored i (c i) t"
  let ?up = "framesTo st (ws sd) (Out_uploadProgress tid (Suc (receivedChunks t)) n)"
  from Cons.prems(4) have ne: "Suc (receivedChunks t) \<noteq> n" by simp
  have dv: "devices ?st1 = devices st" and so: "sockets ?st1 = sockets st"
    using chunk_step_devices [OF Cons.prems(1,2)] by simp_all
  have t1: "map_of (fileTransfers ?st1) tid = Some ?t1"
    and ob: "outbox ?st1 = outbox st @ ?up"
    using chunk_step_progress [OF Cons.prems(1-3) ne] by simp_all
  have c1: "chunks ?t1 = Some (js_array_set i (cleanChunk (c i)) a)"
    using Cons.prems(2) by (simp add: chunkStored_def)
  have f1: "files ?t1 = files t" "fromDeviceId ?t1 = fromDeviceId t"
    "targetDeviceId ?t1 = targetDeviceId t" "fromDevice ?t1 = fromDevice t"
    "receivedChunks ?t1 = Suc (receivedChunks t)"
    by (simp_all add: chunkStored_def)
  have s1: "map_of (devices ?st1) (fromDeviceId ?t1) = Some sd"
    using Cons.prems(3) dv f1 by simp
  have l1: "receivedChunks ?t1 + length is < n"
    using Cons.prems(4) f1 by simp
  from Cons.IH [OF t1 c1 s1 l1]
  obtain t' fr where r:
    "devices (handleMessages depth now dev (map (\<lambda>i. In_fileChunk tid i n (c i) fsz) is) ?st1)
       = devices ?st1"
    "sockets (handleMessages depth now dev (map (\<lambda>i. In_fileChunk tid i n (c i) fsz) is) ?st1)
       = sockets ?st1"
    "map_of (fileTransfers
        (handleMessages depth now dev (map (\<lambda>i. In_fileChunk tid i n (c i) fsz) is) ?st1)) tid
       = Some t'"
    "chunks t' = Some (foldl (\<lambda>a i. js_array_set i (cleanChunk (c i)) a)
                         (js_array_set i (cleanChunk (c i)) a) is)"
    "receivedChunks t' = receivedChunks ?t1 + length is"
    "files t' = files ?t1" "fromDeviceId t' = fromDeviceId ?t1"
    "targetDeviceId t' = targetDeviceId ?t1" "fromDevice t' = fromDevice ?t1"
    "outbox (handleMessages depth now dev (map (\<lambda>i. In_fileChunk tid i n (c i) fsz) is) ?st1)
       = outbox ?st1 @ fr"
    "\<forall>f\<in>set fr. \<not> isFileComplete (snd f) \<and> \<not> isTransferComplete (snd f)"
    by blast
  have e: "handleMessages depth now dev (map (\<lambda>i. In_fileChunk tid i n (c i) fsz) (i # is)) st =
           handleMessages depth now dev (map (\<lambda>i. In_fileChunk tid i n (c i) fsz) is) ?st1"
    by (simp add: handleMessages_def)
  have np: "\<forall>f\<in>set (?up @ fr). \<not> isFileComplete (snd f) \<and> \<not> isTransferComplete (snd f)"
    using r(11) framesTo_uploadProgress [of st "ws sd" tid "Suc (receivedChunks t)" n] by auto
  show ?case
    unfolding e
    apply (rule exI [of _ t'])
    apply (rule exI [of _ "?up @ fr"])
    using r(1-10) np dv so ob f1
    apply simp
    done
qed


lemma foldl_set_get:
  "js_array_get (foldl (\<lambda>a i. js_array_set i (f i) a) a is) j =
     (if j \<in> set is then Some (f j) else js_array_get a j)"
  by (induction "is" arbitrary: a) (auto simp: js_array_get_set)

lemma foldl_set_length:
  "length a \<le> n \<Longrightarrow> \<forall>i\<in>set is. i < n \<Longrightarrow>
   length (foldl (\<lambda>a i. js_array_set i (f i) a) a is) \<le> n"
  by (induction "is" arbitrary: a) (auto simp: length_js_array_set)

lemma foldl_set_all:
  assumes "set is = {0..<n}"
  shows "foldl (\<lambda>a i. js_array_set i (f i) a) [] is = map (\<lambda>j. Some (f j)) [0..<n]"
proof -
  let ?A = "foldl (\<lambda>a i. js_array_set i (f i) a) [] is"
  have g: "js_array_get ?A j = Some (f j)" if "j < n" for j
    using that assms by (simp add: foldl_set_get)
  have le: "length ?A \<le> n"
    by (rule foldl_set_length) (use assms in auto)
  have ge: "n \<le> length ?A"
  proof (rule ccontr)
    assume "\<not> n \<le> length ?A"
    then have "length ?A < n" by simp
    from g [OF this] show False by (simp add: js_array_get_def)
  qed
  from le ge have l: "length ?A = n" by simp
  show ?thesis
  proof (rule nth_equalityI)
    show "length ?A = length (map (\<lambda>j. Some (f j)) [0..<n])" using l by simp
  next
    fix j assume "j < length ?A"
    then have j: "j < n" using l by simp
    from g [OF j] j l show "?A ! j = map (\<lambda>j. Some (f j)) [0..<n] ! j"
      by (simp add: js_array_get_def)
  qed
qed

lemma js_join_all: "js_join (map (\<lambda>j. Some (f j)) js) = concat (map f js)"
  by (simp add: js_join_def comp_def)

lemma not_base64_colon: "\<not> isBase64Char (CHR '':'')"
  by code_simp

lemma cleanChunk_base64:
  assumes "list_all isBase64Char d"
  shows "cleanChunk d = d"
proof -
  have "\<not> startsWith d ''data:''"
  proof
    assume "startsWith d ''data:''"
    then have "set ''data:'' \<subseteq> set d"
      unfolding startsWith_def by (metis set_take_subset)
    then have "CHR '':'' \<in> set d" by simp
    with assms not_base64_colon show False by (auto simp: list_all_iff)
  qed
  moreover have "filter isBase64Char d = d"
    using assms by (simp add: list_all_iff)
  ultimately show ?thesis by (simp add: cleanChunk_def)
qed

lemma concat_clean_payloads:
  assumes "\<forall>d\<in>set p. list_all isBase64Char d"
  shows "concat (map (\<lambda>j. cleanChunk (p ! j)) [0..<length p]) = concat p"
proof -
  have "map (\<lambda>j. cleanChunk (p ! j)) [0..<length p] = map (\<lambda>j. p ! j) [0..<length p]"
    using assms by (auto simp: cleanChunk_base64)
  also have "\<dots> = p" by (rule map_nth)
  finally show ?thesis by simp
qed

lemma readyStateOf_OPEN: "readyStateOf st w = OPEN \<longleftrightarrow> map_of (sockets st) w = Some OPEN"
  by (simp add: readyStateOf_def split: option.splits)

lemma handleMessages_snoc:
  "handleMessages depth now dev (ms @ [m]) st =
     handleMessage depth now [] dev m (handleMessages depth now dev ms st)"
  by (simp add: handleMessages_def)

lemma offer_registered:
  assumes "map_of (devices st) s = Some sd" "map_of (devices st) r = Some rd"
    "roomId sd = roomId rd"
    "tid = (if js_truthy dt then or_empty dt else generateTransferId now rnd)"
    and st1_def: "st1 = handleMessage depth now rnd s (In_fileTransfer r (file0 # rest) dt) st"
  shows "devices st1 = devices st" "sockets st1 = sockets st"
    "map_of (fileTransfers st1) tid =
       Some \<lparr>files = file0 # rest, fromDevice = displayName sd, fromDeviceId = s,
             targetDeviceId = r, timestamp = now, totalSize = fileSize file0,
             status = Pending, chunks = Some [], receivedChunks = 0,
             startTime = None, endTime = None\<rparr>"
proof -
  define T0 where "T0 =
     \<lparr>files = file0 # rest, fromDevice = displayName sd, fromDeviceId = s,
      targetDeviceId = r, timestamp = now, totalSize = fileSize file0,
      status = Pending, chunks = Some [], receivedChunks = 0,
      startTime = None, endTime = None\<rparr>"
  define sr where "sr = st\<lparr>fileTransfers := AList.update tid T0 (fileTransfers st)\<rparr>"
  have k: "devices x = devices sr \<and> sockets x = sockets sr \<and> fileTransfers x = fileTransfers sr
           \<Longrightarrow> devices x = devices st \<and> sockets x = sockets st \<and>
               map_of (fileTransfers x) tid = Some T0" for x
    by (simp add: sr_def update_conv')
  have same: "devices (snd (send_on wo f x)) = devices x \<and>
              sockets (snd (send_on wo f x)) = sockets x \<and>
              fileTransfers (snd (send_on wo f x)) = fileTransfers x" for wo f x
    by (cases wo) (simp_all add: send_on_def throw_def ok_def)
  have catch: "devices y = devices x \<and> sockets y = sockets x \<and> fileTransfers y = fileTransfers x"
    if "y = (case res of
               (None, z) \<Rightarrow> z
             | (Some e, z) \<Rightarrow>
                 (case ws_of (map_of (devices z) s) of
                    None \<Rightarrow> z
                  | Some w \<Rightarrow>
                      if readyStateOf z w = OPEN
                      then ws_send w (Out_error ''Interner Server Fehler'') z else z))"
      "devices (snd res) = devices x \<and> sockets (snd res) = sockets x \<and>
       fileTransfers (snd res) = fileTransfers x" for y x res
    using that by (cases res; cases "fst res") (auto split: option.splits)
  define res where "res = handleFileTransfer s r (file0 # rest) dt now rnd st"
  have res: "devices (snd res) = devices sr \<and> sockets (snd res) = sockets sr \<and>
             fileTransfers (snd res) = fileTransfers sr"
  proof (cases "ws rd")
    case None
    have "res = send_on (ws sd) (Out_transferError None ''Zielgeraet ist offline'') sr"
      using assms(1-3)
      by (simp add: res_def handleFileTransfer_def Let_def assms(4) sr_def T0_def None)
    then show ?thesis using same by simp
  next
    case (Some wR)
    have ro: "readyStateOf sr wR = readyStateOf st wR" by (simp add: sr_def readyStateOf_def)
    show ?thesis
    proof (cases "online rd \<and> readyStateOf st wR = OPEN")
      case True
      have "res = andThen
            (send_on (Some wR)
               (Out_incomingFile (file0 # rest) (displayName sd) s tid (fileSize file0)) sr)
            (send_on (ws sd) (Out_transferStarted (displayName rd) tid))"
        using True assms(1-3) ro
        by (simp add: res_def handleFileTransfer_def Let_def assms(4) sr_def T0_def Some)
      then show ?thesis
        using same [of "ws sd" "Out_transferStarted (displayName rd) tid"
            "ws_send wR (Out_incomingFile (file0 # rest) (displayName sd) s tid (fileSize file0)) sr"]
        by (simp add: send_on_def ok_def andThen_def)
    next
      case False
      have "res = send_on (ws sd) (Out_transferError None ''Zielgeraet ist offline'') sr"
        using False assms(1-3) ro
        by (auto simp add: res_def handleFileTransfer_def Let_def assms(4) sr_def T0_def Some)
      then show ?thesis using same by simp
    qed
  qed
  have "st1 = (case res of
               (None, z) \<Rightarrow> z
             | (Some e, z) \<Rightarrow>
                 (case ws_of (map_of (devices z) s) of
                    None \<Rightarrow> z
                  | Some w \<Rightarrow>
                      if readyStateOf z w = OPEN
                      then ws_send w (Out_error ''Interner Server Fehler'') z else z))"
    by (simp add: st1_def handleMessage_def dispatch_def res_def)
  from k [OF catch [OF this res]]
  show "devices st1 = devices st" "sockets st1 = sockets st"
    "map_of (fileTransfers st1) tid =
       Some \<lparr>files = file0 # rest, fromDevice = displayName sd, fromDeviceId = s,
             targetDeviceId = r, timestamp = now, totalSize = fileSize file0,
             status = Pending, chunks = Some [], receivedChunks = 0,
             startTime = None, endTime = None\<rparr>"
    by (simp_all add: T0_def)
qed

text \<open>
  Claim C1, as the code has it. The sender and the receiver are registered and have
  the same \<open>roomId\<close>, and the receiver is bound to an open socket. The offer of a file
  list with a first file registers the transfer, under the id the sender proposed or,
  without one, the id the server mints. The sender then sends one \<open>fileChunk\<close> for each
  index below the number of payloads, in any order, each with that number as
  \<open>totalChunks\<close> and a payload of base64 characters; there is at least one payload.
  Among the frames sent while the chunks are handled there is exactly one
  \<open>fileComplete\<close>: it goes to the receiver and its \<open>fileData\<close> is the concatenation of the
  payloads in index order. The \<open>transferComplete\<close> frames among them are what
  \<open>if (sender.ws) sender.ws.send\<close> puts on the wire: one, on the socket the sender's
  record is bound to, when that socket is open, and none when the record is bound to
  no socket or to one that is not open.
\<close>

theorem chunk_reassembly_round_trip:
  assumes "map_of (devices st) s = Some sd"
    "map_of (devices st) r = Some rd" "ws rd = Some wR" "readyStateOf st wR = OPEN"
    "roomId sd = roomId rd"
    "tid = (if js_truthy dt then or_empty dt else generateTransferId now rnd)"
    "p \<noteq> []" "list_all (list_all isBase64Char) p"
    "distinct is" "set is = {0..<length p}"
  shows
    "filter (\<lambda>f. isFileComplete (snd f))
       (newFrames
          (handleMessage depth now rnd s (In_fileTransfer r (file0 # rest) dt) st)
          (handleMessages depth now' s (chunkFrames tid fsz p is)
             (handleMessage depth now rnd s (In_fileTransfer r (file0 # rest) dt) st)))
     = [(wR, Out_fileComplete tid (fileName file0)
              (or_empty (js_or (fileType file0) (Some ''application/octet-stream'')))
              (fileSize file0) (concat p) (displayName sd))] \<and>
     filter (\<lambda>f. isTransferComplete (snd f))
       (newFrames
          (handleMessage depth now rnd s (In_fileTransfer r (file0 # rest) dt) st)
          (handleMessages depth now' s (chunkFrames tid fsz p is)
             (handleMessage depth now rnd s (In_fileTransfer r (file0 # rest) dt) st)))
     = framesTo st (ws sd) (Out_transferComplete tid (fileName file0) (displayName rd))"
proof -
  have b64: "\<forall>d\<in>set p. list_all isBase64Char d"
    using assms(8) by (simp add: list_all_iff)
  define T0 where "T0 =
     \<lparr>files = file0 # rest, fromDevice = displayName sd, fromDeviceId = s,
      targetDeviceId = r, timestamp = now, totalSize = fileSize file0,
      status = Pending, chunks = Some [], receivedChunks = 0,
      startTime = None, endTime = None\<rparr>"
  define st1 where
    "st1 = handleMessage depth now rnd s (In_fileTransfer r (file0 # rest) dt) st"
  define n where "n = length p"
  define c where "c = (\<lambda>i. p ! i)"
  define fm where "fm = (\<lambda>i. In_fileChunk tid i n (c i) fsz)"
  have dv1: "devices st1 = devices st" and so1: "sockets st1 = sockets st"
    and tr1: "map_of (fileTransfers st1) tid = Some T0"
    unfolding T0_def
    by (rule offer_registered [OF assms(1,2,5,6) st1_def])+
  have T0: "chunks T0 = Some []" "receivedChunks T0 = 0" "files T0 = file0 # rest"
    "fromDeviceId T0 = s" "targetDeviceId T0 = r" "fromDevice T0 = displayName sd"
    by (simp_all add: T0_def)
  have oR: "map_of (sockets st) wR = Some OPEN"
    using assms(4) by (simp add: readyStateOf_OPEN)
  have len: "length is = n"
    using distinct_card [OF assms(9)] assms(10) by (simp add: n_def)
  have n0: "0 < n" using assms(7) by (simp add: n_def)
  have ne: "is \<noteq> []" using len n0 by auto
  define js where "js = butlast is"
  define il where "il = last is"
  have split: "is = js @ [il]" using ne by (simp add: js_def il_def)
  have ljs: "length js = n - 1" using len by (simp add: js_def)
  define mid where "mid = handleMessages depth now' s (map fm js) st1"
  have frames: "chunkFrames tid fsz p is = map fm js @ [fm il]"
    by (simp add: chunkFrames_def fm_def c_def n_def split)
  have st2: "handleMessages depth now' s (chunkFrames tid fsz p is) st1 =
       handleMessage depth now' [] s (fm il) mid"
    by (simp add: frames handleMessages_snoc mid_def)
  have pre: "receivedChunks T0 + length js < n" using ljs n0 T0 by simp
  have sd1: "map_of (devices st1) (fromDeviceId T0) = Some sd"
    using assms(1) dv1 T0 by simp
  from stream_prefix [OF tr1 T0(1) sd1 pre, of depth now' s c fsz]
  obtain t' fr where m:
    "devices mid = devices st1" "sockets mid = sockets st1"
    "map_of (fileTransfers mid) tid = Some t'"
    "chunks t' = Some (foldl (\<lambda>a i. js_array_set i (cleanChunk (c i)) a) [] js)"
    "receivedChunks t' = receivedChunks T0 + length js"
    "files t' = files T0" "fromDeviceId t' = fromDeviceId T0"
    "targetDeviceId t' = targetDeviceId T0" "fromDevice t' = fromDevice T0"
    "outbox mid = outbox st1 @ fr"
    "\<forall>f\<in>set fr. \<not> isFileComplete (snd f) \<and> \<not> isTransferComplete (snd f)"
    unfolding mid_def fm_def by blast
  have fl: "files t' = file0 # rest" using m(6) T0 by simp
  have sdm: "map_of (devices mid) (fromDeviceId t') = Some sd"
    using m(1,7) dv1 T0 assms(1) by simp
  have rdm: "map_of (devices mid) (targetDeviceId t') = Some rd"
    using m(1,8) dv1 T0 assms(2) by simp
  have oRm: "map_of (sockets mid) wR = Some OPEN" using m(2) so1 oR by simp
  have last: "Suc (receivedChunks t') = n" using m(5) T0 ljs n0 by simp
  have ft: "framesTo mid = framesTo st"
    by (rule ext)+ (simp add: framesTo_def readyStateOf_def m(2) so1 split: option.splits)
  have arr: "js_array_set il (cleanChunk (c il))
               (foldl (\<lambda>a i. js_array_set i (cleanChunk (c i)) a) [] js) =
             foldl (\<lambda>a i. js_array_set i (cleanChunk (c i)) a) [] is"
    by (simp add: split)
  have all: "foldl (\<lambda>a i. js_array_set i (cleanChunk (c i)) a) [] is =
             map (\<lambda>j. Some (cleanChunk (c j))) [0..<n]"
    by (rule foldl_set_all) (simp add: assms(10) n_def)
  have data: "js_join (js_array_set il (cleanChunk (c il))
               (foldl (\<lambda>a i. js_array_set i (cleanChunk (c i)) a) [] js)) = concat p"
  proof -
    have "js_join (js_array_set il (cleanChunk (c il))
               (foldl (\<lambda>a i. js_array_set i (cleanChunk (c i)) a) [] js)) =
          js_join (map (\<lambda>j. Some (cleanChunk (c j))) [0..<n])"
      by (simp only: arr all)
    also have "\<dots> = concat (map (\<lambda>j. cleanChunk (c j)) [0..<n])"
      by (rule js_join_all)
    also have "\<dots> = concat p"
      unfolding c_def n_def by (rule concat_clean_payloads [OF b64])
    finally show ?thesis .
  qed
  define up where "up = framesTo st (ws sd) (Out_uploadProgress tid n n)"
  define tc where
    "tc = framesTo st (ws sd) (Out_transferComplete tid (fileName file0) (displayName rd))"
  define fc where "fc = Out_fileComplete tid (fileName file0)
               (or_empty (js_or (fileType file0) (Some ''application/octet-stream'')))
               (fileSize file0) (concat p) (displayName sd)"
  have ob: "outbox (handleMessage depth now' [] s (fm il) mid) =
       outbox mid @ up @ [(wR, fc)] @ tc"
    unfolding fm_def up_def tc_def fc_def
    using chunk_step_complete [OF m(3,4) fl sdm rdm assms(3) oRm last,
        of depth now' "[]" s il "c il" fsz]
    by (simp add: data m(9) T0 ft)
  have nf: "newFrames st1 (handleMessages depth now' s (chunkFrames tid fsz p is) st1) =
       fr @ up @ [(wR, fc)] @ tc"
    by (simp add: newFrames_def st2 ob m(10))
  have nofr: "filter (\<lambda>f. isFileComplete (snd f)) fr = []"
    "filter (\<lambda>f. isTransferComplete (snd f)) fr = []"
    using m(11) by (simp_all add: filter_empty_conv)
  have kup: "filter (\<lambda>f. isFileComplete (snd f)) up = []"
    "filter (\<lambda>f. isTransferComplete (snd f)) up = []"
    using framesTo_uploadProgress [of st "ws sd" tid n n]
    by (simp_all add: filter_empty_conv up_def)
  have ktc: "filter (\<lambda>f. isFileComplete (snd f)) tc = []"
    "filter (\<lambda>f. isTransferComplete (snd f)) tc = tc"
    by (simp_all add: tc_def framesTo_def isFileComplete_def isTransferComplete_def
        split: option.splits)
  have kfc: "isFileComplete fc" "\<not> isTransferComplete fc"
    by (simp_all add: fc_def isFileComplete_def isTransferComplete_def)
  show ?thesis
    unfolding st1_def [symmetric] nf fc_def [symmetric] tc_def [symmetric]
    by (simp add: nofr kup ktc kfc)
qed

theorem chunk_reassembly_round_trip_witness:
  "map_of (devices st_room) ''device-yaelai'' = Some device_a \<and>
   map_of (devices st_room) ''device-yaem17'' = Some device_b \<and> ws device_b = Some 2 \<and>
   readyStateOf st_room 2 = OPEN \<and> roomId device_a = roomId device_b \<and>
   list_all (list_all isBase64Char) [''YWJj'', ''ZGVm'', ''Z2hp''] \<and>
   distinct [2, 0, 1 :: nat] \<and>
   set [2, 0, 1 :: nat] = {0..<length [''YWJj'', ''ZGVm'', ''Z2hp'']} \<and>
   filter (\<lambda>f. isFileComplete (snd f))
     (newFrames
        (handleMessage 100 4000 ''r4'' ''device-yaelai''
           (In_fileTransfer ''device-yaem17'' [file_x] (Some ''t1'')) st_room)
        (handleMessages 100 5000 ''device-yaelai''
           (chunkFrames ''t1'' 9 [''YWJj'', ''ZGVm'', ''Z2hp''] [2, 0, 1])
           (handleMessage 100 4000 ''r4'' ''device-yaelai''
              (In_fileTransfer ''device-yaem17'' [file_x] (Some ''t1'')) st_room)))
   = [(2, Out_fileComplete ''t1'' ''x.txt'' ''text/plain'' 9 ''YWJjZGVmZ2hp''
            ''Unknown (Unknown)'')] \<and>
   filter (\<lambda>f. isTransferComplete (snd f))
     (newFrames
        (handleMessage 100 4000 ''r4'' ''device-yaelai''
           (In_fileTransfer ''device-yaem17'' [file_x] (Some ''t1'')) st_room)
        (handleMessages 100 5000 ''device-yaelai''
           (chunkFrames ''t1'' 9 [''YWJj'', ''ZGVm'', ''Z2hp''] [2, 0, 1])
           (handleMessage 100 4000 ''r4'' ''device-yaelai''
              (In_fileTransfer ''device-yaem17'' [file_x] (Some ''t1'')) st_room)))
   = [(1, Out_transferComplete ''t1'' ''x.txt'' ''Unknown (Unknown)'')]"
proof -
  have h1: "map_of (devices st_room) ''device-yaelai'' = Some device_a" by code_simp
  have h4: "map_of (devices st_room) ''device-yaem17'' = Some device_b" by code_simp
  have h5: "ws device_b = Some 2" by code_simp
  have h7: "readyStateOf st_room 2 = OPEN" by code_simp
  have h8: "roomId device_a = roomId device_b" by code_simp
  have h9: "''t1'' = (if js_truthy (Some ''t1'') then or_empty (Some ''t1'')
                      else generateTransferId 4000 ''r4'')"
    by code_simp
  have h10: "[''YWJj'', ''ZGVm'', ''Z2hp''] \<noteq> []" by simp
  have h11: "list_all (list_all isBase64Char) [''YWJj'', ''ZGVm'', ''Z2hp'']" by code_simp
  have h12: "distinct [2, 0, 1 :: nat]" by simp
  have h13: "set [2, 0, 1 :: nat] = {0..<length [''YWJj'', ''ZGVm'', ''Z2hp'']}"
    by (auto simp: numeral_eq_Suc)
  have e: "fileName file_x = ''x.txt''" "fileSize file_x = 9"
    "or_empty (js_or (fileType file_x) (Some ''application/octet-stream'')) = ''text/plain''"
    "displayName device_a = ''Unknown (Unknown)''" "displayName device_b = ''Unknown (Unknown)''"
    "concat [''YWJj'', ''ZGVm'', ''Z2hp''] = ''YWJjZGVmZ2hp''"
    by code_simp+
  have f: "framesTo st_room (ws device_a)
             (Out_transferComplete ''t1'' ''x.txt'' ''Unknown (Unknown)'') =
           [(1, Out_transferComplete ''t1'' ''x.txt'' ''Unknown (Unknown)'')]"
    by code_simp
  note T = chunk_reassembly_round_trip [OF h1 h4 h5 h7 h8 h9 h10 h11 h12 h13,
      of 100 file_x "[]" 5000 9]
  show ?thesis
    using T h1 h4 h5 h7 h8 h11 h12 h13 unfolding e f by blast
qed

lemma st_rebound_eq:
  "st_rebound =
     \<lparr>devices =
        [(''device-yaelai'',
          device_a\<lparr>ws := None, online := False, lastSeen := 5000,
                    roomId := Some ''room-3000-abc123def''\<rparr>),
         (''device-yaem17'',
          device_b\<lparr>lastSeen := 2000, roomId := Some ''room-3000-abc123def''\<rparr>)],
      rooms =
        [(''room-3000-abc123def'',
          \<lparr>roomName = ''Foo'', created = 3000, createdBy = ''device-yaelai'',
           members = [''device-yaelai'', ''device-yaem17'']\<rparr>)],
      connections = [(3, ''device-yaelai''), (2, ''device-yaem17'')],
      activeConnections = [(3, 3000), (2, 4000)],
      fileTransfers = [], currentMemoryUsage = 0,
      sockets = [(1, CLOSED), (3, OPEN), (2, OPEN)],
      outbox =
        [(3, Out_roomCreated ''room-3000-abc123def'' ''Foo''),
         (3, Out_deviceList [(''device-yaelai'', ''Unknown (Unknown)'', False, True)]
               ''room-3000-abc123def'' ''Foo'' 1),
         (2, Out_roomJoined ''room-3000-abc123def'' ''Foo'' 2),
         (3, Out_deviceList
               [(''device-yaelai'', ''Unknown (Unknown)'', False, True),
                (''device-yaem17'', ''Unknown (Unknown)'', False, True)]
               ''room-3000-abc123def'' ''Foo'' 2),
         (2, Out_deviceList
               [(''device-yaelai'', ''Unknown (Unknown)'', False, True),
                (''device-yaem17'', ''Unknown (Unknown)'', False, True)]
               ''room-3000-abc123def'' ''Foo'' 2),
         (3, Out_deviceJoined ''device-yaem17'' ''Unknown (Unknown)'' 2),
         (2, Out_deviceLeft ''device-yaelai'' ''Unknown (Unknown)'' 1
               (Some ''Verbindung getrennt'')),
         (2, Out_deviceList
               [(''device-yaelai'', ''Unknown (Unknown)'', False, False),
                (''device-yaem17'', ''Unknown (Unknown)'', False, True)]
               ''room-3000-abc123def'' ''Foo'' 2)],
      closeCalls = [],
      timers = [(100, Timer_welcome 1 ''device-yaelai''),
                (100, Timer_welcome 3 ''device-yaelai''),
                (100, Timer_welcome 2 ''device-yaem17'')]\<rparr>"
  by code_simp

text \<open>
  The claim as written fails for the \<open>transferComplete\<close>. A client connects on socket 1
  and again on socket 3, creates the room \<open>Foo\<close>, a second client joins it, and socket 1
  closes: the close handler unbinds the record of the first device although socket 3
  is open. Both devices are registered in the same room and the receiver's socket is
  open. The first device, on socket 3, offers the file, which is announced to the
  receiver, and streams the three chunks; the only frame sent while the chunks are
  handled is the \<open>fileComplete\<close> to the receiver.
\<close>

theorem chunk_reassembly_counterexample:
  "roomIdOf st_rebound ''device-yaelai'' = Some ''room-3000-abc123def'' \<and>
   roomIdOf st_rebound ''device-yaem17'' = Some ''room-3000-abc123def'' \<and>
   ws_of (map_of (devices st_rebound) ''device-yaem17'') = Some 2 \<and>
   readyStateOf st_rebound 2 = OPEN \<and>
   map_of (connections st_rebound) 3 = Some ''device-yaelai'' \<and>
   readyStateOf st_rebound 3 = OPEN \<and>
   ws_of (map_of (devices st_rebound) ''device-yaelai'') = None \<and>
   newFrames st_rebound
     (handleMessage 100 6000 ''r4'' ''device-yaelai''
        (In_fileTransfer ''device-yaem17'' [file_x] (Some ''t1'')) st_rebound)
   = [(2, Out_incomingFile [file_x] ''Unknown (Unknown)'' ''device-yaelai'' ''t1'' 9)] \<and>
   newFrames
     (handleMessage 100 6000 ''r4'' ''device-yaelai''
        (In_fileTransfer ''device-yaem17'' [file_x] (Some ''t1'')) st_rebound)
     (handleMessages 100 7000 ''device-yaelai''
        (chunkFrames ''t1'' 9 [''YWJj'', ''ZGVm'', ''Z2hp''] [2, 0, 1])
        (handleMessage 100 6000 ''r4'' ''device-yaelai''
           (In_fileTransfer ''device-yaem17'' [file_x] (Some ''t1'')) st_rebound))
   = [(2, Out_fileComplete ''t1'' ''x.txt'' ''text/plain'' 9 ''YWJjZGVmZ2hp''
            ''Unknown (Unknown)'')]"
  unfolding st_rebound_eq by code_simp

section \<open>Missing chunks\<close>

lemma resend_loop:
  assumes "files t = file0 # rest" "readyStateOf st0 w = OPEN"
  shows "foldl (\<lambda>r i. andThen r (resendChunk w dev tid n t i)) (None, st0) missing =
           (None, st0\<lparr>outbox := outbox st0 @ resentFrames w dev tid n t (fileSize file0) missing\<rparr>)"
  using assms(2)
proof (induction missing arbitrary: st0)
  case Nil
  then show ?case by (simp add: resentFrames_def)
next
  case (Cons i missing)
  show ?case
  proof (cases "bufferedChunk t i")
    case None
    then have "resendChunk w dev tid n t i st0 = (None, st0)"
      by (simp add: resendChunk_def ok_def)
    then show ?thesis
      using Cons.IH [OF Cons.prems] None by (simp add: resentFrames_def)
  next
    case (Some s)
    let ?st1 = "st0\<lparr>outbox := outbox st0 @ [(w, Out_fileChunk dev tid i n s (fileSize file0))]\<rparr>"
    have r: "resendChunk w dev tid n t i st0 = (None, ?st1)"
      using Some assms(1) Cons.prems by (simp add: resendChunk_def ok_def ws_send_def)
    have o: "readyStateOf ?st1 w = OPEN"
      using Cons.prems by (simp add: readyStateOf_def)
    show ?thesis
      using Cons.IH [OF o] Some r by (simp add: resentFrames_def)
  qed
qed

lemma handleRequestMissingChunks_frames:
  assumes "map_of (fileTransfers st) tid = Some t" "files t = file0 # rest"
    "senderChannel st t = Some wS"
  shows "handleRequestMissingChunks dev tid missing n st =
           (None, st\<lparr>outbox := outbox st @ resentFrames wS dev tid n t (fileSize file0) missing\<rparr>)"
proof -
  from assms(3) obtain sd where sd: "map_of (devices st) (fromDeviceId t) = Some sd"
    "ws sd = Some wS" "readyStateOf st wS = OPEN"
    by (auto simp: senderChannel_def split: option.splits if_splits)
  show ?thesis
    using assms(1) sd
    by (simp add: handleRequestMissingChunks_def ok_def resend_loop [OF assms(2)])
qed

lemma handleRequestMissingChunks_silent:
  assumes "map_of (fileTransfers st) tid = Some t" "senderChannel st t = None"
  shows "handleRequestMissingChunks dev tid missing n st = (None, st)"
  using assms
  by (auto simp: handleRequestMissingChunks_def senderChannel_def ok_def
      split: option.splits if_splits)

lemma length_resentFrames:
  "length (resentFrames w dev tid n t fsz missing) =
     length (filter (\<lambda>i. bufferedChunk t i \<noteq> None) missing)"
  by (induction missing) (auto simp: resentFrames_def split: option.splits)

lemma fst_resentFrames: "f \<in> set (resentFrames w dev tid n t fsz missing) \<Longrightarrow> fst f = w"
  by (auto simp: resentFrames_def split: option.splits)

lemma handleMessage_requestMissingChunks:
  "fst (handleRequestMissingChunks dev tid missing n st) = None \<Longrightarrow>
   handleMessage depth now rnd dev (In_requestMissingChunks tid missing n) st =
     snd (handleRequestMissingChunks dev tid missing n st)"
  by (cases "handleRequestMissingChunks dev tid missing n st")
    (simp add: handleMessage_def dispatch_def)

text \<open>
  Claim C3, as the code has it. The frames go to the socket of the sender of the
  transfer, not to the requester, who is named in them as target: one frame for each
  listed index whose buffered chunk is not empty, in the order of the list, so as many
  frames as listed indices when all of them are buffered, and none for an index that is
  not buffered. When the sender is not registered, or bound to no socket, or its socket
  is not open, nothing is sent and nothing changes. A registered transfer has a first
  file: the offer handler reads its size before it registers the transfer.
\<close>

theorem missing_chunks_resent_to_sender:
  assumes "map_of (fileTransfers st) tid = Some t" "files t = file0 # rest"
  shows
    "(senderChannel st t = Some wS \<longrightarrow>
        newFrames st (handleMessage depth now rnd dev (In_requestMissingChunks tid missing n) st)
          = resentFrames wS dev tid n t (fileSize file0) missing \<and>
        length (resentFrames wS dev tid n t (fileSize file0) missing) =
          length (filter (\<lambda>i. bufferedChunk t i \<noteq> None) missing) \<and>
        (list_all (\<lambda>i. bufferedChunk t i \<noteq> None) missing \<longrightarrow>
           length (resentFrames wS dev tid n t (fileSize file0) missing) = length missing) \<and>
        (\<forall>f\<in>set (resentFrames wS dev tid n t (fileSize file0) missing). fst f = wS)) \<and>
     (senderChannel st t = None \<longrightarrow>
        handleMessage depth now rnd dev (In_requestMissingChunks tid missing n) st = st)"
proof (intro conjI impI)
  assume o: "senderChannel st t = Some wS"
  have h: "handleRequestMissingChunks dev tid missing n st =
       (None, st\<lparr>outbox := outbox st @ resentFrames wS dev tid n t (fileSize file0) missing\<rparr>)"
    by (rule handleRequestMissingChunks_frames [OF assms o])
  then have "handleMessage depth now rnd dev (In_requestMissingChunks tid missing n) st =
       st\<lparr>outbox := outbox st @ resentFrames wS dev tid n t (fileSize file0) missing\<rparr>"
    by (simp add: handleMessage_requestMissingChunks)
  then show "newFrames st (handleMessage depth now rnd dev (In_requestMissingChunks tid missing n) st)
          = resentFrames wS dev tid n t (fileSize file0) missing"
    by (simp add: newFrames_def)
  show l: "length (resentFrames wS dev tid n t (fileSize file0) missing) =
          length (filter (\<lambda>i. bufferedChunk t i \<noteq> None) missing)"
    by (rule length_resentFrames)
  show "length (resentFrames wS dev tid n t (fileSize file0) missing) = length missing"
    if "list_all (\<lambda>i. bufferedChunk t i \<noteq> None) missing"
  proof -
    from that have "filter (\<lambda>i. bufferedChunk t i \<noteq> None) missing = missing"
      by (simp add: list_all_iff)
    with l show ?thesis by simp
  qed
  show "\<forall>f\<in>set (resentFrames wS dev tid n t (fileSize file0) missing). fst f = wS"
    by (auto dest: fst_resentFrames)
next
  assume "senderChannel st t = None"
  with assms have "handleRequestMissingChunks dev tid missing n st = (None, st)"
    by (simp add: handleRequestMissingChunks_silent)
  then show "handleMessage depth now rnd dev (In_requestMissingChunks tid missing n) st = st"
    by (simp add: handleMessage_requestMissingChunks)
qed

theorem missing_chunks_resent_to_sender_witness:
  "map_of (fileTransfers st_chunk2) ''t1'' = Some transfer_t1_02 \<and>
   files transfer_t1_02 = [file_x] \<and>
   senderChannel st_chunk2 transfer_t1_02 = Some 1 \<and>
   newFrames st_chunk2
     (handleMessage 100 6000 ''r8'' ''device-yaem17''
        (In_requestMissingChunks ''t1'' [1, 0, 2, 5] 3) st_chunk2)
     = [(1, Out_fileChunk ''device-yaem17'' ''t1'' 0 3 ''YWJj'' 9),
        (1, Out_fileChunk ''device-yaem17'' ''t1'' 2 3 ''Z2hp'' 9)] \<and>
   list_all (\<lambda>i. bufferedChunk transfer_t1_02 i \<noteq> None) [0, 2] \<and>
   length (resentFrames 1 ''device-yaem17'' ''t1'' 3 transfer_t1_02 (fileSize file_x) [0, 2])
     = length [0, 2 :: nat] \<and>
   map_of (fileTransfers st_chunk2_closed) ''t1'' = Some transfer_t1_02 \<and>
   map_of (devices st_chunk2_closed) ''device-yaelai'' =
     Some (device_a\<lparr>ws := None, online := False, lastSeen := 6000\<rparr>) \<and>
   senderChannel st_chunk2_closed transfer_t1_02 = None \<and>
   handleMessage 100 7000 ''r8'' ''device-yaem17''
     (In_requestMissingChunks ''t1'' [0, 2] 3) st_chunk2_closed = st_chunk2_closed \<and>
   map_of (fileTransfers st_chunk2_swept) ''t1'' = Some transfer_t1_02 \<and>
   map_of (devices st_chunk2_swept) ''device-yaelai'' = None \<and>
   senderChannel st_chunk2_swept transfer_t1_02 = None \<and>
   handleMessage 100 7000 ''r8'' ''device-yaem17''
     (In_requestMissingChunks ''t1'' [0, 2] 3) st_chunk2_swept = st_chunk2_swept"
proof -
  have h1: "map_of (fileTransfers st_chunk2) ''t1'' = Some transfer_t1_02" by code_simp
  have h2: "files transfer_t1_02 = file_x # []" by code_simp
  have h3: "senderChannel st_chunk2 transfer_t1_02 = Some 1" by code_simp
  have h6: "list_all (\<lambda>i. bufferedChunk transfer_t1_02 i \<noteq> None) [0, 2]" by code_simp
  have e: "resentFrames 1 ''device-yaem17'' ''t1'' 3 transfer_t1_02 (fileSize file_x) [1, 0, 2, 5]
     = [(1, Out_fileChunk ''device-yaem17'' ''t1'' 0 3 ''YWJj'' 9),
        (1, Out_fileChunk ''device-yaem17'' ''t1'' 2 3 ''Z2hp'' 9)]"
    by code_simp
  have c1: "map_of (fileTransfers st_chunk2_closed) ''t1'' = Some transfer_t1_02" by code_simp
  have c2: "map_of (devices st_chunk2_closed) ''device-yaelai'' =
     Some (device_a\<lparr>ws := None, online := False, lastSeen := 6000\<rparr>)" by code_simp
  have c3: "senderChannel st_chunk2_closed transfer_t1_02 = None" by code_simp
  have s1: "map_of (fileTransfers st_chunk2_swept) ''t1'' = Some transfer_t1_02" by code_simp
  have s2: "map_of (devices st_chunk2_swept) ''device-yaelai'' = None" by code_simp
  have s3: "senderChannel st_chunk2_swept transfer_t1_02 = None" by code_simp
  from missing_chunks_resent_to_sender [OF h1 h2, of 1 100 6000 "''r8''" "''device-yaem17''"
      "[1, 0, 2, 5]" 3] h3
  have a: "newFrames st_chunk2
     (handleMessage 100 6000 ''r8'' ''device-yaem17''
        (In_requestMissingChunks ''t1'' [1, 0, 2, 5] 3) st_chunk2)
     = resentFrames 1 ''device-yaem17'' ''t1'' 3 transfer_t1_02 (fileSize file_x) [1, 0, 2, 5]"
    by blast
  from missing_chunks_resent_to_sender [OF h1 h2, of 1 100 6000 "''r8''" "''device-yaem17''"
      "[0, 2]" 3] h3 h6
  have b: "length (resentFrames 1 ''device-yaem17'' ''t1'' 3 transfer_t1_02 (fileSize file_x) [0, 2])
     = length [0, 2 :: nat]"
    by blast
  from missing_chunks_resent_to_sender [OF c1 h2, of 1 100 7000 "''r8''" "''device-yaem17''"
      "[0, 2]" 3] c3
  have c: "handleMessage 100 7000 ''r8'' ''device-yaem17''
     (In_requestMissingChunks ''t1'' [0, 2] 3) st_chunk2_closed = st_chunk2_closed"
    by blast
  from missing_chunks_resent_to_sender [OF s1 h2, of 1 100 7000 "''r8''" "''device-yaem17''"
      "[0, 2]" 3] s3
  have d: "handleMessage 100 7000 ''r8'' ''device-yaem17''
     (In_requestMissingChunks ''t1'' [0, 2] 3) st_chunk2_swept = st_chunk2_swept"
    by blast
  show ?thesis
    using h1 h2 h3 h6 a b c1 c2 c3 c s1 s2 s3 d unfolding e by simp
qed

text \<open>
  The claim as written fails: the receiver, on socket 2, asks for the buffered chunk 0
  and the one frame sent in answer goes to socket 1, the sender's; socket 2 gets
  nothing.
\<close>

theorem missing_chunks_counterexample:
  "map_of (devices st_chunk2) ''device-yaem17'' = Some device_b \<and> ws device_b = Some 2 \<and>
   bufferedChunk transfer_t1_02 0 = Some ''YWJj'' \<and>
   newFrames st_chunk2
     (handleMessage 100 6000 ''r8'' ''device-yaem17''
        (In_requestMissingChunks ''t1'' [0] 3) st_chunk2)
     = [(1, Out_fileChunk ''device-yaem17'' ''t1'' 0 3 ''YWJj'' 9)] \<and>
   filter (\<lambda>f. fst f = 2)
     (newFrames st_chunk2
        (handleMessage 100 6000 ''r8'' ''device-yaem17''
           (In_requestMissingChunks ''t1'' [0] 3) st_chunk2)) = []"
  by code_simp

section \<open>Duplicate connections\<close>

lemma st_first_eq:
  "st_first =
     \<lparr>devices =
        [(''device-yaelai'',
          \<lparr>ws = Some 1, name = ''Unknown (Unknown)'', customName = None,
           deviceType = ''unknown'', platform = ''Unknown'', browser = ''Unknown'',
           userAgent = ''Unbekannt'', pinned = False, online = True, lastSeen = 1000,
           roomId = None, connectionStrength = ''good'', ip = Some ''10.0.0.2''\<rparr>)],
      rooms = [], connections = [(1, ''device-yaelai'')], activeConnections = [(1, 1000)],
      fileTransfers = [], currentMemoryUsage = 0, sockets = [(1, OPEN)], outbox = [],
      closeCalls = [], timers = [(100, Timer_welcome 1 ''device-yaelai'')]\<rparr>"
  by code_simp

lemma st_second_eq:
  "st_second =
     \<lparr>devices =
        [(''device-yaelai'',
          \<lparr>ws = Some 3, name = ''Unknown (Unknown)'', customName = None,
           deviceType = ''unknown'', platform = ''Unknown'', browser = ''Unknown'',
           userAgent = ''Unbekannt'', pinned = False, online = True, lastSeen = 2000,
           roomId = None, connectionStrength = ''good'', ip = Some ''10.0.0.2''\<rparr>)],
      rooms = [], connections = [(1, ''device-yaelai''), (3, ''device-yaelai'')],
      activeConnections = [(1, 1000), (3, 2000)],
      fileTransfers = [], currentMemoryUsage = 0, sockets = [(1, OPEN), (3, OPEN)],
      outbox = [], closeCalls = [],
      timers = [(100, Timer_welcome 1 ''device-yaelai''),
                (100, Timer_welcome 3 ''device-yaelai'')]\<rparr>"
  unfolding st_second_def st_first_eq by code_simp

text \<open>
  Claim C4 at a concrete input. A client connects on socket 1 and again on socket 3.
  The connection handler binds the device to the new socket and registers it, and that
  is all: socket 1 stays open and registered, no \<open>duplicate_connection\<close> frame is sent
  and no timer is set to close it. The function written for this,
  \<open>checkForDuplicateConnections\<close>, would send both frames and set the timer that closes
  socket 1 with code 1000, but nothing calls it.
\<close>

theorem duplicate_connection_not_resolved:
  "connections st_first = [(1, ''device-yaelai'')] \<and>
   readyStateOf st_first 1 = OPEN \<and>
   connections st_second = [(1, ''device-yaelai''), (3, ''device-yaelai'')] \<and>
   map_option ws (map_of (devices st_second) ''device-yaelai'') = Some (Some 3) \<and>
   readyStateOf st_second 1 = OPEN \<and>
   newFrames st_first st_second = [] \<and>
   closeCalls st_second = [] \<and>
   timers st_second =
     [(100, Timer_welcome 1 ''device-yaelai''), (100, Timer_welcome 3 ''device-yaelai'')] \<and>
   newFrames st_second (checkForDuplicateConnections ''device-yaelai'' 3 st_second) =
     [(1, Out_duplicate_connection
            ''Neue Verbindung erkannt - diese Verbindung wird geschlossen'' False),
      (3, Out_duplicate_connection ''Aeltere Verbindung wurde geschlossen'' True)] \<and>
   timers (checkForDuplicateConnections ''device-yaelai'' 3 st_second) =
     timers st_second @ [(1000, Timer_closeDuplicate 1)] \<and>
   closeCalls (fire_timer (Timer_closeDuplicate 1)
                 (checkForDuplicateConnections ''device-yaelai'' 3 st_second)) =
     [(1, Some 1000, ''Duplicate connection - newer connection available'')]"
  unfolding st_second_eq st_first_eq by code_simp

section \<open>The room registry\<close>

subsection \<open>What the invariant depends on\<close>

lemma map_of_map_snd: "map_of (map (\<lambda>e. (fst e, f (snd e))) xs) k = map_option f (map_of xs k)"
  by (induction xs) auto

lemma map_of_roomIds: "map_of (roomIds st) d = map_option roomId (map_of (devices st) d)"
  by (simp add: roomIds_def map_of_map_snd)

lemma fst_roomIds: "map fst (roomIds st) = map fst (devices st)"
  by (simp add: roomIds_def)

lemma room_inv_alt:
  "room_inv st \<longleftrightarrow>
     (\<forall>rid r d. map_of (rooms st) rid = Some r \<and> d \<in> set (members r) \<longrightarrow>
        map_of (roomIds st) d = Some (Some rid))"
  by (auto simp: room_inv_def map_of_roomIds)

lemma registry_inv_alt:
  "registry_inv st \<longleftrightarrow>
     distinct (map fst (roomIds st)) \<and> map_of (rooms st) [] = None \<and>
     (\<forall>rid r d. map_of (rooms st) rid = Some r \<and> d \<in> set (members r) \<longrightarrow>
        map_of (roomIds st) d = Some (Some rid))"
  by (simp add: registry_inv_def room_inv_alt fst_roomIds)

lemma registry_inv_cong:
  "roomIds st' = roomIds st \<Longrightarrow> rooms st' = rooms st \<Longrightarrow> registry_inv st \<Longrightarrow> registry_inv st'"
  by (simp add: registry_inv_alt)

lemma map_entry_same:
  "map_of al k = Some v \<Longrightarrow> g (f v) = g v \<Longrightarrow>
   map (\<lambda>e. (fst e, g (snd e))) (AList.map_entry k f al) = map (\<lambda>e. (fst e, g (snd e))) al"
  by (induction al) auto

lemma map_entry_absent: "map_of al k = None \<Longrightarrow> AList.map_entry k f al = al"
  by (induction al) auto

lemma roomIds_modify_device:
  "map_of (devices st) d = Some dev \<Longrightarrow> roomId (f dev) = roomId dev \<Longrightarrow>
   roomIds (modify_device d f st) = roomIds st"
  by (simp add: roomIds_def modify_device_def map_entry_same)

lemma rooms_modify_device [simp]: "rooms (modify_device d f st) = rooms st"
  by (simp add: modify_device_def)

subsection \<open>Sending frames changes no registry\<close>

lemma roomIds_ws_send [simp]: "roomIds (ws_send w f st) = roomIds st"
  by (simp add: roomIds_def)

lemma roomIds_send_if_bound [simp]: "roomIds (send_if_bound d f st) = roomIds st"
  by (simp add: roomIds_def)

lemma devices_broadcast_one [simp]: "devices (broadcast_one m e st d) = devices st"
  by (simp add: broadcast_one_def split: option.splits)

lemma rooms_broadcast_one [simp]: "rooms (broadcast_one m e st d) = rooms st"
  by (simp add: broadcast_one_def split: option.splits)

lemma sockets_broadcast_one [simp]: "sockets (broadcast_one m e st d) = sockets st"
  by (simp add: broadcast_one_def split: option.splits)

lemma fileTransfers_broadcast_one [simp]:
  "fileTransfers (broadcast_one m e st d) = fileTransfers st"
  by (simp add: broadcast_one_def split: option.splits)

lemma foldl_broadcast_one [simp]:
  "devices (foldl (broadcast_one m e) st ds) = devices st"
  "rooms (foldl (broadcast_one m e) st ds) = rooms st"
  "sockets (foldl (broadcast_one m e) st ds) = sockets st"
  "fileTransfers (foldl (broadcast_one m e) st ds) = fileTransfers st"
  by (induction ds arbitrary: st) simp_all

lemma broadcastToRoom_regs [simp]:
  "devices (broadcastToRoom rid m e st) = devices st"
  "rooms (broadcastToRoom rid m e st) = rooms st"
  "sockets (broadcastToRoom rid m e st) = sockets st"
  "fileTransfers (broadcastToRoom rid m e st) = fileTransfers st"
  by (simp_all add: broadcastToRoom_def split: option.splits)

lemma broadcastDeviceList_regs [simp]:
  "devices (broadcastDeviceList rid st) = devices st"
  "rooms (broadcastDeviceList rid st) = rooms st"
  "sockets (broadcastDeviceList rid st) = sockets st"
  "fileTransfers (broadcastDeviceList rid st) = fileTransfers st"
  by (simp_all add: broadcastDeviceList_def Let_def split: option.splits)

lemma broadcastDeviceList_of_regs [simp]:
  "devices (broadcastDeviceList_of r st) = devices st"
  "rooms (broadcastDeviceList_of r st) = rooms st"
  "sockets (broadcastDeviceList_of r st) = sockets st"
  "fileTransfers (broadcastDeviceList_of r st) = fileTransfers st"
  by (simp_all add: broadcastDeviceList_of_def split: option.splits)

lemma send_on_regs [simp]:
  "devices (snd (send_on wo f st)) = devices st"
  "rooms (snd (send_on wo f st)) = rooms st"
  "sockets (snd (send_on wo f st)) = sockets st"
  "fileTransfers (snd (send_on wo f st)) = fileTransfers st"
  by (simp_all add: send_on_def throw_def ok_def split: option.splits)

lemma send_if_online_regs [simp]:
  "devices (send_if_online d f st) = devices st"
  "rooms (send_if_online d f st) = rooms st"
  "sockets (send_if_online d f st) = sockets st"
  "fileTransfers (send_if_online d f st) = fileTransfers st"
  by (simp_all add: send_if_online_def split: option.splits)

lemma ws_close_regs [simp]:
  "devices (ws_close w c r st) = devices st"
  "rooms (ws_close w c r st) = rooms st"
  by (simp_all add: ws_close_def)

lemma roomIds_devices: "devices st' = devices st \<Longrightarrow> roomIds st' = roomIds st"
  by (simp add: roomIds_def)


lemma sameRooms_refl [simp]: "sameRooms st st"
  by (simp add: sameRooms_def)

lemma sameRooms_trans: "sameRooms a b \<Longrightarrow> sameRooms b c \<Longrightarrow> sameRooms a c"
  by (simp add: sameRooms_def)

lemma sameRooms_inv: "sameRooms st st' \<Longrightarrow> registry_inv st \<Longrightarrow> registry_inv st'"
  by (simp add: sameRooms_def registry_inv_alt)

lemma sameRooms_regs: "devices st' = devices st \<Longrightarrow> rooms st' = rooms st \<Longrightarrow> sameRooms st st'"
  by (simp add: sameRooms_def roomIds_def)

lemma updateMemoryUsage_devices [simp]:
  "devices (snd (updateMemoryUsage depth now delta st)) = devices st"
proof (cases depth)
  case 0
  then show ?thesis by (simp add: updateMemoryUsage_0)
next
  case (Suc d)
  then show ?thesis by (simp add: updateMemoryUsage_Suc)
qed

lemma updateMemoryUsage_rooms [simp]:
  "rooms (snd (updateMemoryUsage depth now delta st)) = rooms st"
proof (cases depth)
  case 0
  then show ?thesis by (simp add: updateMemoryUsage_0)
next
  case (Suc d)
  then show ?thesis by (simp add: updateMemoryUsage_Suc)
qed

lemma release_sameRooms:
  "sameRooms st (snd (andThen
      (if c then updateMemoryUsage depth now delta st else ok st)
      (\<lambda>st1. ok (st1\<lparr>fileTransfers := AList.delete tid (fileTransfers st1)\<rparr>))))"
proof (cases c)
  case True
  obtain e s where r: "updateMemoryUsage depth now delta st = (e, s)"
    by (cases "updateMemoryUsage depth now delta st")
  from updateMemoryUsage_throws [of depth now delta st] r obtain err where e: "e = Some err"
    by auto
  have "devices s = devices st" "rooms s = rooms st"
    using updateMemoryUsage_devices [of depth now delta st]
      updateMemoryUsage_rooms [of depth now delta st] by (simp_all add: r)
  then have "sameRooms st s" by (rule sameRooms_regs)
  then show ?thesis by (simp add: True r e)
next
  case False
  have "sameRooms st (st\<lparr>fileTransfers := AList.delete tid (fileTransfers st)\<rparr>)"
    by (rule sameRooms_regs) simp_all
  then show ?thesis by (simp add: False ok_def)
qed


lemma handleFileCancel_sameRooms: "sameRooms st (snd (handleFileCancel depth now tid st))"
proof (cases "map_of (fileTransfers st) tid")
  case None
  then show ?thesis by (simp add: handleFileCancel_def ok_def)
next
  case (Some t)
  show ?thesis
    unfolding handleFileCancel_def Some option.case by (rule release_sameRooms)
qed

lemma handleFileComplete_sameRooms: "sameRooms st (snd (handleFileComplete depth now tid st))"
proof (cases "map_of (fileTransfers st) tid")
  case None
  then show ?thesis by (simp add: handleFileComplete_def ok_def)
next
  case (Some t)
  show ?thesis
    unfolding handleFileComplete_def Some option.case by (rule release_sameRooms)
qed

lemma handleTransferComplete_sameRooms:
  "sameRooms st (snd (handleTransferComplete depth now tid st))"
proof (cases "map_of (fileTransfers st) tid")
  case None
  then show ?thesis by (simp add: handleTransferComplete_def ok_def)
next
  case (Some t)
  show ?thesis
    unfolding handleTransferComplete_def Some option.case by (rule release_sameRooms)
qed

lemma sweep_transfer_sameRooms: "sameRooms st (snd (sweep_transfer depth now tid st))"
proof (cases "map_of (fileTransfers st) tid")
  case None
  then show ?thesis by (simp add: sweep_transfer_def ok_def)
next
  case (Some t)
  show ?thesis
  proof (cases "now - timestamp t > 60 * 60 * 1000")
    case True
    show ?thesis
      unfolding sweep_transfer_def Some option.case if_P [OF True] by (rule release_sameRooms)
  next
    case False
    then show ?thesis by (simp add: sweep_transfer_def Some ok_def)
  qed
qed

lemma handleTransferRejected_sameRooms:
  "sameRooms st (snd (handleTransferRejected from_id tid st))"
  by (simp add: handleTransferRejected_def Let_def ok_def sameRooms_regs)

lemma handleTransferAccepted_sameRooms: "sameRooms st (snd (handleTransferAccepted from_id st))"
  by (simp add: handleTransferAccepted_def ok_def sameRooms_regs)

lemma handleFileProgress_sameRooms: "sameRooms st (snd (handleFileProgress target tid st))"
  by (simp add: handleFileProgress_def ok_def sameRooms_regs)

lemma andThen_devices:
  "(\<And>s. devices (snd (g s)) = devices s) \<Longrightarrow> devices (snd (andThen r g)) = devices (snd r)"
  by (cases r) (auto simp: andThen_def split: option.splits)

lemma andThen_rooms:
  "(\<And>s. rooms (snd (g s)) = rooms s) \<Longrightarrow> rooms (snd (andThen r g)) = rooms (snd r)"
  by (cases r) (auto simp: andThen_def split: option.splits)

lemma handleFileDownload_sameRooms: "sameRooms st (snd (handleFileDownload dev tid st))"
  by (rule sameRooms_regs)
    (simp_all add: handleFileDownload_def Let_def ok_def split: option.splits)

lemma handleFileTransfer_sameRooms:
  "sameRooms st (snd (handleFileTransfer s target fs dt now rnd st))"
  by (rule sameRooms_regs)
    (simp_all add: handleFileTransfer_def Let_def throw_def andThen_devices andThen_rooms
      split: option.splits list.splits)


lemma sameRooms_map:
  "map (\<lambda>e. (fst e, roomId (snd e))) (devices st') = map (\<lambda>e. (fst e, roomId (snd e))) (devices st) \<Longrightarrow>
   rooms st' = rooms st \<Longrightarrow> sameRooms st st'"
  by (simp add: sameRooms_def roomIds_def)

lemma devices_modify_device: "devices (modify_device d f st) = AList.map_entry d f (devices st)"
  by (simp add: modify_device_def)

lemma handleFileChunk_sameRooms:
  "sameRooms st (snd (handleFileChunk depth now dev tid i n d fsz st))"
  by (rule sameRooms_regs)
    (simp_all add: handleFileChunk_def Let_def ok_def andThen_devices andThen_rooms
      case_prod_beta split: option.splits)

lemma resendChunk_regs [simp]:
  "devices (snd (resendChunk w dev tid n t i st)) = devices st"
  "rooms (snd (resendChunk w dev tid n t i st)) = rooms st"
  by (simp_all add: resendChunk_def ok_def throw_def split: option.splits list.splits)

lemma resend_fold_regs:
  "devices (snd (foldl (\<lambda>r i. andThen r (resendChunk w dev tid n t i)) r is)) = devices (snd r)"
  "rooms (snd (foldl (\<lambda>r i. andThen r (resendChunk w dev tid n t i)) r is)) = rooms (snd r)"
  by (induction "is" arbitrary: r) (simp_all add: andThen_devices andThen_rooms)

lemma handleRequestMissingChunks_sameRooms:
  "sameRooms st (snd (handleRequestMissingChunks dev tid missing n st))"
  by (rule sameRooms_regs)
    (simp_all add: handleRequestMissingChunks_def ok_def resend_fold_regs split: option.splits)

lemma handleClientIdentify_sameRooms:
  "sameRooms st (snd (handleClientIdentify dev ua now st))"
  by (rule sameRooms_map)
    (simp_all add: handleClientIdentify_def Let_def ok_def devices_modify_device map_entry_same
      split: option.splits prod.splits)

lemma handleDeviceInfo_sameRooms:
  "sameRooms st (snd (handleDeviceInfo dev nm cn ty now st))"
  by (rule sameRooms_map)
    (simp_all add: handleDeviceInfo_def Let_def ok_def devices_modify_device map_entry_same
      split: option.splits)

lemma handleUpdateDeviceName_sameRooms:
  "sameRooms st (snd (handleUpdateDeviceName dev nm now st))"
  by (rule sameRooms_map)
    (simp_all add: handleUpdateDeviceName_def Let_def ok_def devices_modify_device map_entry_same
      split: option.splits)

lemma handleTogglePinDevice_sameRooms:
  "sameRooms st (snd (handleTogglePinDevice dev target st))"
  by (rule sameRooms_map)
    (simp_all add: handleTogglePinDevice_def Let_def ok_def throw_def devices_modify_device
      map_entry_same split: option.splits)

lemma handlePing_sameRooms:
  "sameRooms st (snd (handlePing dev strength now st))"
  by (rule sameRooms_map)
    (simp_all add: handlePing_def Let_def ok_def devices_modify_device map_entry_same
      split: option.splits)


lemma registry_inv_regs:
  "devices st' = devices st \<Longrightarrow> rooms st' = rooms st \<Longrightarrow> registry_inv st \<Longrightarrow> registry_inv st'"
  by (simp add: registry_inv_alt roomIds_def)

lemma noRoom_regs: "rooms st' = rooms st \<Longrightarrow> noRoom st d \<Longrightarrow> noRoom st' d"
  by (simp add: noRoom_def)

lemma inv_member:
  "registry_inv st \<Longrightarrow> map_of (rooms st) rid = Some r \<Longrightarrow> d \<in> set (members r) \<Longrightarrow>
   \<exists>dev. map_of (devices st) d = Some dev \<and> roomId dev = Some rid"
  unfolding registry_inv_def room_inv_def by blast

lemma inv_noRoom_falsy:
  assumes "registry_inv st" "map_of (devices st) d = Some dev" "\<not> js_truthy (roomId dev)"
  shows "noRoom st d"
  unfolding noRoom_def
proof (intro allI impI notI)
  fix rid r assume r: "map_of (rooms st) rid = Some r" and m: "d \<in> set (members r)"
  from inv_member [OF assms(1) r m] assms(2) have "roomId dev = Some rid" by simp
  with assms(3) have "rid = []" by (simp add: js_truthy_def)
  with r assms(1) show False by (simp add: registry_inv_def)
qed

lemma set_set_delete [simp]: "set (set_delete d ms) = set ms - {d}"
  by (simp add: set_delete_def)

lemma set_set_add [simp]: "set (set_add d ms) = insert d (set ms)"
  by (auto simp: set_add_def)

lemma fst_map_entry [simp]: "map fst (AList.map_entry k f al) = map fst al"
  by (induction al) auto

lemma map_of_map_entry_at:
  "map_of (AList.map_entry k f al) k' =
     (if k' = k then map_option f (map_of al k) else map_of al k')"
  by (simp add: map_of_map_entry split: option.splits)

lemma leave_regs_inv:
  assumes inv: "registry_inv st" and dev: "map_of (devices st) d = Some dev"
    and cur: "roomId dev = Some cur"
    and D: "devices st' = AList.map_entry d (\<lambda>x. x\<lparr>roomId := None\<rparr>) (devices st)"
    and R: "rooms st' =
      (case map_of (rooms st) cur of
         None \<Rightarrow> rooms st
       | Some r \<Rightarrow>
           if set_delete d (members r) = [] then AList.delete cur (rooms st)
           else AList.map_entry cur (\<lambda>x. x\<lparr>members := set_delete d (members r)\<rparr>) (rooms st))"
  shows "registry_inv st' \<and> noRoom st' d"
proof -
  have only: "rid = cur" if "map_of (rooms st) rid = Some r" "d \<in> set (members r)" for rid r
    using inv_member [OF inv that] dev cur by simp
  have mem: "\<exists>r. map_of (rooms st) rid = Some r \<and> x \<in> set (members r) \<and> x \<noteq> d"
    if "map_of (rooms st') rid = Some r'" "x \<in> set (members r')" for rid r' x
  proof (cases "map_of (rooms st) cur")
    case None
    with R that have r: "map_of (rooms st) rid = Some r'" by simp
    have "x \<noteq> d" using only [OF r] that(2) None r by auto
    with r show ?thesis using that(2) by blast
  next
    case (Some r)
    show ?thesis
    proof (cases "rid = cur")
      case True
      with that R Some have e: "set_delete d (members r) \<noteq> []"
        "r' = r\<lparr>members := set_delete d (members r)\<rparr>"
        by (auto simp: delete_conv' map_of_map_entry_at split: if_splits)
      with that(2) have "x \<in> set (members r)" "x \<noteq> d" by auto
      with Some True show ?thesis by blast
    next
      case False
      with that R Some have r: "map_of (rooms st) rid = Some r'"
        by (auto simp: delete_conv' map_of_map_entry_at split: if_splits)
      have "x \<noteq> d" using only [OF r] that(2) False by auto
      with r that(2) show ?thesis by blast
    qed
  qed
  have keys: "map_of (rooms st') [] = None"
    using inv R by (auto simp: registry_inv_def delete_conv' map_of_map_entry_at split: option.splits)
  have dist: "distinct (map fst (devices st'))"
    using inv D by (simp add: registry_inv_def)
  have rinv: "room_inv st'"
    unfolding room_inv_def
  proof (intro allI impI, elim conjE)
    fix rid r' x assume a: "map_of (rooms st') rid = Some r'" "x \<in> set (members r')"
    from mem [OF a] obtain r where r: "map_of (rooms st) rid = Some r" "x \<in> set (members r)" "x \<noteq> d"
      by blast
    from inv_member [OF inv r(1,2)] obtain xd where "map_of (devices st) x = Some xd" "roomId xd = Some rid"
      by blast
    with r(3) D show "\<exists>dev. map_of (devices st') x = Some dev \<and> roomId dev = Some rid"
      by (simp add: map_of_map_entry_at)
  qed
  have "noRoom st' d"
    unfolding noRoom_def using mem by blast
  with keys dist rinv show ?thesis by (simp add: registry_inv_def)
qed

lemma join_regs_inv:
  assumes inv: "registry_inv st" and nr: "noRoom st d" and dev: "map_of (devices st) d = Some dev"
    and D: "devices st' = AList.map_entry d (\<lambda>x. x\<lparr>roomId := Some frid\<rparr>) (devices st)"
    and R: "rooms st' = AList.map_entry frid (\<lambda>x. x\<lparr>members := set_add d (members cur)\<rparr>) (rooms st)"
    and cur: "\<forall>r. map_of (rooms st) frid = Some r \<longrightarrow> r = cur"
  shows "registry_inv st'"
proof -
  have keys: "map_of (rooms st') [] = None"
    using inv R by (simp add: registry_inv_def map_of_map_entry_at)
  have dist: "distinct (map fst (devices st'))"
    using inv D by (simp add: registry_inv_def)
  have rinv: "room_inv st'"
    unfolding room_inv_def
  proof (intro allI impI, elim conjE)
    fix rid r' x assume a: "map_of (rooms st') rid = Some r'" "x \<in> set (members r')"
    show "\<exists>dev. map_of (devices st') x = Some dev \<and> roomId dev = Some rid"
    proof (cases "x = d")
      case True
      have "rid = frid"
      proof (rule ccontr)
        assume "rid \<noteq> frid"
        with a R have "map_of (rooms st) rid = Some r'" by (simp add: map_of_map_entry_at)
        with nr a(2) True show False by (simp add: noRoom_def)
      qed
      with True dev D show ?thesis by (simp add: map_of_map_entry_at)
    next
      case False
      have "\<exists>r. map_of (rooms st) rid = Some r \<and> x \<in> set (members r)"
      proof (cases "rid = frid")
        case True
        with a R obtain r where r: "map_of (rooms st) frid = Some r"
          "r' = r\<lparr>members := set_add d (members cur)\<rparr>"
          by (auto simp: map_of_map_entry_at)
        with cur have "r = cur" by simp
        with r a(2) False have "x \<in> set (members r)" by auto
        with r True show ?thesis by blast
      next
        case False
        with a R show ?thesis by (auto simp: map_of_map_entry_at)
      qed
      then obtain r where r: "map_of (rooms st) rid = Some r" "x \<in> set (members r)" by blast
      from inv_member [OF inv r] obtain xd where "map_of (devices st) x = Some xd" "roomId xd = Some rid"
        by blast
      with False D show ?thesis by (simp add: map_of_map_entry_at)
    qed
  qed
  from keys dist rinv show ?thesis by (simp add: registry_inv_def)
qed

lemma create_regs_inv:
  assumes inv: "registry_inv st" and nr: "noRoom st d" and dev: "map_of (devices st) d = Some dev"
    and rid: "rid \<noteq> []"
    and D: "devices st' = AList.map_entry d (\<lambda>x. x\<lparr>roomId := Some rid\<rparr>) (devices st)"
    and R: "rooms st' = AList.update rid newRoom (rooms st)"
    and new: "members newRoom = [d]"
  shows "registry_inv st'"
proof -
  have keys: "map_of (rooms st') [] = None"
    using inv R rid by (simp add: registry_inv_def update_conv')
  have dist: "distinct (map fst (devices st'))"
    using inv D by (simp add: registry_inv_def)
  have rinv: "room_inv st'"
    unfolding room_inv_def
  proof (intro allI impI, elim conjE)
    fix k r' x assume a: "map_of (rooms st') k = Some r'" "x \<in> set (members r')"
    show "\<exists>dev. map_of (devices st') x = Some dev \<and> roomId dev = Some k"
    proof (cases "k = rid")
      case True
      with a R new have "x = d" by (simp add: update_conv')
      with True dev D show ?thesis by (simp add: map_of_map_entry_at)
    next
      case False
      with a R have r: "map_of (rooms st) k = Some r'" by (simp add: update_conv')
      with nr a(2) have "x \<noteq> d" by (auto simp: noRoom_def)
      moreover from inv_member [OF inv r a(2)] obtain xd where
        "map_of (devices st) x = Some xd" "roomId xd = Some k" by blast
      ultimately show ?thesis using D by (simp add: map_of_map_entry_at)
    qed
  qed
  from keys dist rinv show ?thesis by (simp add: registry_inv_def)
qed


lemma handleLeaveRoom_regs:
  assumes "map_of (devices st) d = Some dev" "roomId dev = Some cur" "cur \<noteq> []"
  shows "devices (snd (handleLeaveRoom d st)) =
           AList.map_entry d (\<lambda>x. x\<lparr>roomId := None\<rparr>) (devices st)"
    and "rooms (snd (handleLeaveRoom d st)) =
      (case map_of (rooms st) cur of
         None \<Rightarrow> rooms st
       | Some r \<Rightarrow>
           if set_delete d (members r) = [] then AList.delete cur (rooms st)
           else AList.map_entry cur (\<lambda>x. x\<lparr>members := set_delete d (members r)\<rparr>) (rooms st))"
  using assms
  by (simp_all add: handleLeaveRoom_def Let_def send_on_regs modify_device_def modify_room_def
      broadcastToRoom_regs split: option.splits)

lemma handleLeaveRoom_idle:
  assumes "map_of (devices st) d = Some dev" "\<not> js_truthy (roomId dev)"
  shows "handleLeaveRoom d st = ok st"
  using assms by (auto simp: handleLeaveRoom_def js_truthy_def split: option.splits)

lemma handleLeaveRoom_unknown:
  "map_of (devices st) d = None \<Longrightarrow> handleLeaveRoom d st = throw TypeError st"
  by (simp add: handleLeaveRoom_def)

lemma handleLeaveRoom_inv:
  assumes inv: "registry_inv st"
  shows "registry_inv (snd (handleLeaveRoom d st))"
proof (cases "map_of (devices st) d")
  case None
  then show ?thesis using inv by (simp add: handleLeaveRoom_unknown throw_def)
next
  case (Some dev)
  show ?thesis
  proof (cases "js_truthy (roomId dev)")
    case False
    then show ?thesis using inv Some by (simp add: handleLeaveRoom_idle ok_def)
  next
    case True
    then obtain cur where cur: "roomId dev = Some cur" "cur \<noteq> []"
      by (cases "roomId dev") (auto simp: js_truthy_def)
    from leave_regs_inv [OF inv Some cur(1) handleLeaveRoom_regs [OF Some cur]]
    show ?thesis by simp
  qed
qed

lemma handleLeaveRoom_noRoom:
  assumes inv: "registry_inv st" and dev: "map_of (devices st) d = Some dev"
  shows "noRoom (snd (handleLeaveRoom d st)) d"
    and "\<exists>dev'. map_of (devices (snd (handleLeaveRoom d st))) d = Some dev'"
proof -
  show "noRoom (snd (handleLeaveRoom d st)) d"
  proof (cases "js_truthy (roomId dev)")
    case False
    then show ?thesis using inv dev inv_noRoom_falsy [OF inv dev False]
      by (simp add: handleLeaveRoom_idle ok_def)
  next
    case True
    then obtain cur where cur: "roomId dev = Some cur" "cur \<noteq> []"
      by (cases "roomId dev") (auto simp: js_truthy_def)
    from leave_regs_inv [OF inv dev cur(1) handleLeaveRoom_regs [OF dev cur]]
    show ?thesis by simp
  qed
  show "\<exists>dev'. map_of (devices (snd (handleLeaveRoom d st))) d = Some dev'"
  proof (cases "js_truthy (roomId dev)")
    case False
    then show ?thesis using dev by (simp add: handleLeaveRoom_idle ok_def)
  next
    case True
    then obtain cur where cur: "roomId dev = Some cur" "cur \<noteq> []"
      by (cases "roomId dev") (auto simp: js_truthy_def)
    show ?thesis using dev
      by (simp add: handleLeaveRoom_regs(1) [OF dev cur] map_of_map_entry_at)
  qed
qed

text \<open>The state on which a join or a create works after the automatic leave.\<close>

lemma auto_leave:
  assumes inv: "registry_inv st" and dev: "map_of (devices st) d = Some dev"
  defines "r \<equiv> (if js_truthy (roomId dev) then handleLeaveRoom d st else ok st)"
  shows "registry_inv (snd r)" "noRoom (snd r) d" "\<exists>dev'. map_of (devices (snd r)) d = Some dev'"
proof -
  show "registry_inv (snd r)"
    using inv handleLeaveRoom_inv [OF inv, of d] by (simp add: r_def ok_def)
  show "noRoom (snd r) d"
    using handleLeaveRoom_noRoom(1) [OF inv dev] inv_noRoom_falsy [OF inv dev]
    by (simp add: r_def ok_def)
  show "\<exists>dev'. map_of (devices (snd r)) d = Some dev'"
    using handleLeaveRoom_noRoom(2) [OF inv dev] dev by (simp add: r_def ok_def)
qed

lemma join_step_inv:
  assumes inv: "registry_inv st1" and nr: "noRoom st1 d"
    and dev: "map_of (devices st1) d = Some dev'"
  shows "registry_inv (snd
    (let cur = (case map_of (rooms st1) frid of Some r \<Rightarrow> r | None \<Rightarrow> orphan);
         ms = set_add d (members cur);
         st2 = modify_room frid (\<lambda>r. r\<lparr>members := ms\<rparr>)
                 (modify_device d (\<lambda>x. x\<lparr>roomId := Some frid\<rparr>) st1)
     in andThen (send_on w (f ms) st2)
          (\<lambda>st3. ok (broadcastToRoom frid (g ms) (Some d) (broadcastDeviceList frid st3)))))"
proof -
  define cur where "cur = (case map_of (rooms st1) frid of Some r \<Rightarrow> r | None \<Rightarrow> orphan)"
  define st2 where "st2 = modify_room frid (\<lambda>r. r\<lparr>members := set_add d (members cur)\<rparr>)
                 (modify_device d (\<lambda>x. x\<lparr>roomId := Some frid\<rparr>) st1)"
  have i2: "registry_inv st2"
    by (rule join_regs_inv [OF inv nr dev, where frid = frid and cur = cur])
       (simp_all add: st2_def modify_room_def modify_device_def cur_def)
  have "registry_inv (snd (andThen (send_on w (f (set_add d (members cur))) st2)
          (\<lambda>st3. ok (broadcastToRoom frid (g (set_add d (members cur))) (Some d)
             (broadcastDeviceList frid st3)))))"
  proof (cases w)
    case None
    then show ?thesis using i2 by (simp add: send_on_def throw_def andThen_def)
  next
    case (Some a)
    show ?thesis
      by (rule registry_inv_regs [OF _ _ i2])
         (simp_all add: Some send_on_def ok_def andThen_def broadcastToRoom_regs
            broadcastDeviceList_regs)
  qed
  then show ?thesis by (simp add: Let_def cur_def st2_def)
qed

lemma andThen_inv:
  assumes "registry_inv (snd r)" "fst r = None \<Longrightarrow> registry_inv (snd (k (snd r)))"
  shows "registry_inv (snd (andThen r k))"
  using assms by (cases r; cases "fst r") (auto simp: andThen_def)

lemma send_on_inv:
  assumes "registry_inv st"
  shows "registry_inv (snd (send_on w f st))"
  by (rule registry_inv_regs [OF _ _ assms]) (simp_all add: send_on_regs)

lemma handleJoinRoom_inv:
  assumes inv: "registry_inv st"
  shows "registry_inv (snd (handleJoinRoom d rn rid st))"
proof (cases "map_of (devices st) d")
  case None
  then show ?thesis using inv by (simp add: handleJoinRoom_def throw_def)
next
  case (Some dev)
  note al = auto_leave [OF inv Some]
  from al(3) obtain dev' where
    dev': "map_of (devices (snd (if js_truthy (roomId dev) then handleLeaveRoom d st
                                  else ok st))) d = Some dev'"
    by blast
  show ?thesis
    apply (simp only: handleJoinRoom_def Some option.case)
    apply (split option.split; intro conjI impI allI)
     apply (rule send_on_inv [OF inv])
    apply (split if_split; intro conjI impI)
     apply (rule send_on_inv [OF inv])
    apply (split option.split; intro conjI impI allI)
     apply (rule send_on_inv [OF inv])
    apply (split prod.split; intro allI impI)
    apply (rule andThen_inv)
     apply (rule al(1))
    apply (rule join_step_inv [OF al(1) al(2) dev'])
    done
qed

lemma create_step_inv:
  assumes inv: "registry_inv st1" and nr: "noRoom st1 d"
    and dev: "map_of (devices st1) d = Some dev'"
  shows "registry_inv (snd
    (let rid = generateRoomId now rnd;
         st2 = st1\<lparr>rooms := AList.update rid
                 \<lparr>roomName = nm, created = now, createdBy = d, members = [d]\<rparr> (rooms st1)\<rparr>;
         st3 = modify_device d (\<lambda>x. x\<lparr>roomId := Some rid\<rparr>) st2
     in andThen (send_on w (f rid) st3) (\<lambda>st4. ok (broadcastDeviceList rid st4))))"
proof -
  define rid where "rid = generateRoomId now rnd"
  define st3 where "st3 = modify_device d (\<lambda>x. x\<lparr>roomId := Some rid\<rparr>)
     (st1\<lparr>rooms := AList.update rid
                 \<lparr>roomName = nm, created = now, createdBy = d, members = [d]\<rparr> (rooms st1)\<rparr>)"
  have ne: "rid \<noteq> []" by (simp add: rid_def generateRoomId_def)
  have i3: "registry_inv st3"
    by (rule create_regs_inv [OF inv nr dev ne, where
          newRoom = "\<lparr>roomName = nm, created = now, createdBy = d, members = [d]\<rparr>"])
       (simp_all add: st3_def modify_device_def)
  have "registry_inv (snd (andThen (send_on w (f rid) st3)
          (\<lambda>st4. ok (broadcastDeviceList rid st4))))"
  proof (cases w)
    case None
    then show ?thesis using i3 by (simp add: send_on_def throw_def andThen_def)
  next
    case (Some a)
    show ?thesis
      by (rule registry_inv_regs [OF _ _ i3])
         (simp_all add: Some send_on_def ok_def andThen_def broadcastDeviceList_regs)
  qed
  then show ?thesis by (simp add: Let_def rid_def st3_def)
qed

lemma handleCreateRoom_inv:
  assumes inv: "registry_inv st"
  shows "registry_inv (snd (handleCreateRoom d rn rid now rnd st))"
proof (cases "map_of (devices st) d")
  case None
  then show ?thesis using inv by (simp add: handleCreateRoom_def throw_def)
next
  case (Some dev)
  note al = auto_leave [OF inv Some]
  from al(3) obtain dev' where
    dev': "map_of (devices (snd (if js_truthy (roomId dev) then handleLeaveRoom d st
                                  else ok st))) d = Some dev'"
    by blast
  show ?thesis
    apply (simp only: handleCreateRoom_def Some option.case)
    apply (split option.split; intro conjI impI allI)
     apply (rule send_on_inv [OF inv])
    apply (split if_split; intro conjI impI)
     apply (rule send_on_inv [OF inv])
    apply (split option.split; intro conjI impI allI)
     prefer 2
     apply (rule send_on_inv [OF inv])
    apply (rule andThen_inv)
     apply (rule al(1))
    apply (rule create_step_inv [OF al(1) al(2) dev'])
    done
qed


lemma dispatch_inv:
  assumes inv: "registry_inv st"
  shows "registry_inv (snd (dispatch depth now rnd d data st))"
proof (cases data)
  case (In_legacy ty nm cn)
  show ?thesis
  proof (cases "js_truthy nm")
    case True
    then show ?thesis using inv In_legacy
      by (simp add: dispatch_def sameRooms_inv [OF handleDeviceInfo_sameRooms])
  next
    case False
    show ?thesis
    proof (cases "map_of (devices st) d")
      case None
      then show ?thesis using inv In_legacy False by (simp add: dispatch_def throw_def)
    next
      case (Some dev)
      then show ?thesis using inv In_legacy False
        by (simp add: dispatch_def sameRooms_inv [OF handleDeviceInfo_sameRooms])
    qed
  qed
next
  case (In_unknown ty)
  have "sameRooms st (snd (dispatch depth now rnd d data st))"
    by (rule sameRooms_regs)
       (simp_all add: In_unknown dispatch_def ok_def ws_send_def split: option.splits)
  then show ?thesis using inv by (rule sameRooms_inv)
qed (simp_all add: dispatch_def inv handleJoinRoom_inv handleCreateRoom_inv handleLeaveRoom_inv
      sameRooms_inv [OF handleClientIdentify_sameRooms]
      sameRooms_inv [OF handleDeviceInfo_sameRooms]
      sameRooms_inv [OF handleFileTransfer_sameRooms]
      sameRooms_inv [OF handleFileChunk_sameRooms]
      sameRooms_inv [OF handleFileComplete_sameRooms]
      sameRooms_inv [OF handleUpdateDeviceName_sameRooms]
      sameRooms_inv [OF handleFileProgress_sameRooms]
      sameRooms_inv [OF handlePing_sameRooms]
      sameRooms_inv [OF handleTransferComplete_sameRooms]
      sameRooms_inv [OF handleFileDownload_sameRooms]
      sameRooms_inv [OF handleRequestMissingChunks_sameRooms]
      sameRooms_inv [OF handleTransferRejected_sameRooms]
      sameRooms_inv [OF handleTransferAccepted_sameRooms]
      sameRooms_inv [OF handleTogglePinDevice_sameRooms]
      sameRooms_inv [OF handleFileCancel_sameRooms])

lemma ws_send_inv:
  assumes "registry_inv st"
  shows "registry_inv (ws_send w f st)"
  by (rule registry_inv_regs [OF _ _ assms]) (simp_all add: ws_send_def)

lemma handleMessage_inv:
  assumes inv: "registry_inv st"
  shows "registry_inv (handleMessage depth now rnd d data st)"
proof -
  obtain e st1 where r: "dispatch depth now rnd d data st = (e, st1)"
    by (cases "dispatch depth now rnd d data st")
  from dispatch_inv [OF inv, of depth now rnd d data] r have "registry_inv st1" by simp
  then show ?thesis
    by (simp add: handleMessage_def r ws_send_inv split: option.splits)
qed

lemma on_message_inv:
  assumes inv: "registry_inv st"
  shows "registry_inv (on_message depth w now rnd payload st)"
proof -
  have a: "registry_inv (st\<lparr>activeConnections := x\<rparr>)" for x
    by (rule registry_inv_regs [OF _ _ inv]) simp_all
  show ?thesis
    by (simp add: on_message_def Let_def inv a ws_send_inv handleMessage_inv split: option.splits)
qed

lemma fire_timer_inv:
  assumes "registry_inv st"
  shows "registry_inv (fire_timer a st)"
  by (rule registry_inv_regs [OF _ _ assms])
     (simp_all add: fire_timer_def ws_send_def ws_close_regs split: timer_action.splits)

lemma on_close_inv:
  assumes inv: "registry_inv st"
  shows "registry_inv (on_close w now st)"
proof -
  have "sameRooms st (on_close w now st)"
    unfolding sameRooms_def
    by (auto simp: on_close_def Let_def roomIds_def modify_device_def broadcastDeviceList_regs
        broadcastToRoom_regs map_entry_same map_entry_absent
        split: option.splits)
  then show ?thesis using inv by (rule sameRooms_inv)
qed


lemma new_device_inv:
  assumes inv: "registry_inv st" and new: "map_of (devices st) d = None"
    and D: "devices st' = AList.update d dev (devices st)" and R: "rooms st' = rooms st"
  shows "registry_inv st'"
proof -
  have dist: "distinct (map fst (devices st'))"
    using inv D by (simp add: registry_inv_def distinct_update)
  have keys: "map_of (rooms st') [] = None"
    using inv R by (simp add: registry_inv_def)
  have rinv: "room_inv st'"
    unfolding room_inv_def
  proof (intro allI impI, elim conjE)
    fix rid r x assume a: "map_of (rooms st') rid = Some r" "x \<in> set (members r)"
    from inv_member [OF inv a(1) [unfolded R] a(2)] obtain xd where
      xd: "map_of (devices st) x = Some xd" "roomId xd = Some rid" by blast
    with new have "x \<noteq> d" by auto
    with xd D show "\<exists>dev. map_of (devices st') x = Some dev \<and> roomId dev = Some rid"
      by (simp add: update_conv')
  qed
  from dist keys rinv show ?thesis by (simp add: registry_inv_def)
qed

lemma on_connection_inv:
  assumes inv: "registry_inv st"
  shows "registry_inv (on_connection w req now st)"
proof -
  define ua where "ua = (case js_or (header req ''user-agent'') (Some ''Unbekannt'') of
                         None \<Rightarrow> [] | Some u \<Rightarrow> u)"
  define d where "d = generateStableDeviceId ua req"
  obtain pn bn where pb: "detectPlatform ua = (pn, bn)" by (cases "detectPlatform ua")
  show ?thesis
  proof (cases "map_of (devices st) d")
    case None
    show ?thesis
      by (rule new_device_inv [OF inv None, where
            dev = "\<lparr>ws = Some w, name = generateDeviceName pn bn,
                      customName = None, deviceType = getDeviceType pn,
                      platform = pn, browser = bn, userAgent = ua,
                      pinned = False, online = True, lastSeen = now, roomId = None,
                      connectionStrength = ''good'', ip = socket_remoteAddress req\<rparr>"])
         (simp_all add: on_connection_def Let_def ua_def [symmetric] d_def [symmetric] pb None
            ws_send_def)
  next
    case (Some dev)
    have "sameRooms st (on_connection w req now st)"
      unfolding sameRooms_def
      by (simp add: on_connection_def Let_def ua_def [symmetric] d_def [symmetric] pb Some
            ws_send_def roomIds_def modify_device_def map_entry_same [OF Some])
    then show ?thesis using inv by (rule sameRooms_inv)
  qed
qed

lemma sweep_connection_regs [simp]:
  "devices (sweep_connection now st e) = devices st"
  "rooms (sweep_connection now st e) = rooms st"
  by (cases e; simp add: sweep_connection_def Let_def ws_close_regs)+

lemma foldl_sweep_connection_regs:
  "devices (foldl (sweep_connection now) st es) = devices st"
  "rooms (foldl (sweep_connection now) st es) = rooms st"
  by (induction es arbitrary: st) simp_all

lemma remove_device_inv:
  assumes inv: "registry_inv st" and dev: "map_of (devices st) d = Some dev"
    and D: "devices st' = AList.delete d (devices st)"
    and R: "rooms st' =
      (case roomId dev of
         None \<Rightarrow> rooms st
       | Some cur \<Rightarrow>
          if cur = [] then rooms st
          else
           (case map_of (rooms st) cur of
              None \<Rightarrow> rooms st
            | Some r \<Rightarrow>
               if set_delete d (members r) = [] then AList.delete cur (rooms st)
               else AList.map_entry cur (\<lambda>x. x\<lparr>members := set_delete d (members r)\<rparr>)
                      (rooms st)))"
  shows "registry_inv st'"
proof -
  have mem: "\<exists>r. map_of (rooms st) rid = Some r \<and> x \<in> set (members r) \<and> x \<noteq> d"
    if a: "map_of (rooms st') rid = Some r'" "x \<in> set (members r')" for rid r' x
  proof (cases "js_truthy (roomId dev)")
    case False
    from inv_noRoom_falsy [OF inv dev False] have nr: "noRoom st d" .
    from False R have "rooms st' = rooms st"
      by (auto simp: js_truthy_def split: option.splits)
    with a nr show ?thesis by (auto simp: noRoom_def)
  next
    case True
    then obtain cur where cur: "roomId dev = Some cur" "cur \<noteq> []"
      by (cases "roomId dev") (auto simp: js_truthy_def)
    have only: "k = cur" if "map_of (rooms st) k = Some r" "d \<in> set (members r)" for k r
      using inv_member [OF inv that] dev cur by simp
    show ?thesis
    proof (cases "map_of (rooms st) cur")
      case None
      with R cur a have r: "map_of (rooms st) rid = Some r'" by simp
      have "x \<noteq> d" using only [OF r] a(2) None r by auto
      with r a(2) show ?thesis by blast
    next
      case (Some r)
      show ?thesis
      proof (cases "rid = cur")
        case True
        with a R Some cur have e: "r' = r\<lparr>members := set_delete d (members r)\<rparr>"
          by (auto simp: delete_conv' map_of_map_entry_at split: if_splits)
        with a(2) have "x \<in> set (members r)" "x \<noteq> d" by auto
        with Some True show ?thesis by blast
      next
        case False
        with a R Some cur have r: "map_of (rooms st) rid = Some r'"
          by (auto simp: delete_conv' map_of_map_entry_at split: if_splits)
        have "x \<noteq> d" using only [OF r] a(2) False by auto
        with r a(2) show ?thesis by blast
      qed
    qed
  qed
  have keys: "map_of (rooms st') [] = None"
    using inv R
    by (auto simp: registry_inv_def delete_conv' map_of_map_entry_at split: option.splits)
  have dist: "distinct (map fst (devices st'))"
    using inv D by (simp add: registry_inv_def distinct_delete)
  have rinv: "room_inv st'"
    unfolding room_inv_def
  proof (intro allI impI, elim conjE)
    fix rid r' x assume a: "map_of (rooms st') rid = Some r'" "x \<in> set (members r')"
    from mem [OF a] obtain r where r: "map_of (rooms st) rid = Some r" "x \<in> set (members r)" "x \<noteq> d"
      by blast
    from inv_member [OF inv r(1,2)] obtain xd where "map_of (devices st) x = Some xd" "roomId xd = Some rid"
      by blast
    with r(3) D show "\<exists>dev. map_of (devices st') x = Some dev \<and> roomId dev = Some rid"
      by (simp add: delete_conv')
  qed
  from keys dist rinv show ?thesis by (simp add: registry_inv_def)
qed

lemma sweep_device_cases:
  "sweep_device now st (d, dev) = st \<or>
   (devices (sweep_device now st (d, dev)) = AList.delete d (devices st) \<and>
    rooms (sweep_device now st (d, dev)) =
      (case roomId dev of
         None \<Rightarrow> rooms st
       | Some cur \<Rightarrow>
          if cur = [] then rooms st
          else
           (case map_of (rooms st) cur of
              None \<Rightarrow> rooms st
            | Some r \<Rightarrow>
               if set_delete d (members r) = [] then AList.delete cur (rooms st)
               else AList.map_entry cur (\<lambda>x. x\<lparr>members := set_delete d (members r)\<rparr>)
                      (rooms st))))"
  by (simp add: sweep_device_def Let_def ws_close_regs modify_room_def split: option.splits)

lemma sweep_device_inv:
  assumes inv: "registry_inv st" and dev: "map_of (devices st) d = Some dev"
  shows "registry_inv (sweep_device now st (d, dev))"
  using sweep_device_cases [of now st d dev] inv remove_device_inv [OF inv dev]
  by auto

lemma sweep_device_others:
  "k \<noteq> d \<Longrightarrow> map_of (devices (sweep_device now st (d, dev))) k = map_of (devices st) k"
  using sweep_device_cases [of now st d dev] by (auto simp: delete_conv')

lemma foldl_sweep_device_inv:
  "registry_inv st \<Longrightarrow> distinct (map fst es) \<Longrightarrow>
   list_all (\<lambda>e. map_of (devices st) (fst e) = Some (snd e)) es \<Longrightarrow>
   registry_inv (foldl (sweep_device now) st es)"
proof (induction es arbitrary: st)
  case Nil
  then show ?case by simp
next
  case (Cons e es)
  obtain d dev where e: "e = (d, dev)" by (cases e)
  from Cons.prems e have dev: "map_of (devices st) d = Some dev" by simp
  have i: "registry_inv (sweep_device now st (d, dev))"
    by (rule sweep_device_inv [OF Cons.prems(1) dev])
  have rest: "list_all (\<lambda>x. map_of (devices (sweep_device now st (d, dev))) (fst x) = Some (snd x)) es"
  proof -
    have ne: "fst x \<noteq> d" if "x \<in> set es" for x
      using Cons.prems(2) e that by force
    have "map_of (devices (sweep_device now st (d, dev))) (fst x) = Some (snd x)"
      if "x \<in> set es" for x
      using Cons.prems(3) that sweep_device_others [OF ne [OF that], of now st dev]
      by (simp add: list_all_iff)
    then show ?thesis by (simp add: list_all_iff)
  qed
  from Cons.IH [OF i _ rest] Cons.prems(2) e show ?case by simp
qed

lemma foldl_sweep_transfer_sameRooms:
  "sameRooms (snd r) (snd (foldl (\<lambda>r tid. andThen r (sweep_transfer depth now tid)) r tids))"
proof (induction tids arbitrary: r)
  case Nil
  then show ?case by simp
next
  case (Cons t tids)
  have "sameRooms (snd r) (snd (andThen r (sweep_transfer depth now t)))"
    using sweep_transfer_sameRooms [of "snd r" depth now t]
    by (cases r; cases "fst r") (auto simp: andThen_def)
  from sameRooms_trans [OF this Cons.IH] show ?case by simp
qed

lemma sweep_inv:
  assumes inv: "registry_inv st"
  shows "registry_inv (snd (sweep depth now st))"
proof -
  define st1 where "st1 = foldl (sweep_connection now) st (activeConnections st)"
  define st2 where "st2 = foldl (sweep_device now) st1 (devices st1)"
  have i1: "registry_inv st1"
    by (rule registry_inv_regs [OF _ _ inv]) (simp_all add: st1_def foldl_sweep_connection_regs)
  then have d1: "distinct (map fst (devices st1))" by (simp add: registry_inv_def)
  have i2: "registry_inv st2"
    unfolding st2_def
    by (rule foldl_sweep_device_inv [OF i1 d1]) (simp add: list_all_iff d1)
  have "sameRooms st2 (snd (foldl (\<lambda>r tid. andThen r (sweep_transfer depth now tid))
                             (ok st2) tids))" for tids
    using foldl_sweep_transfer_sameRooms [of "ok st2" depth now tids] by (simp add: ok_def)
  then have "sameRooms st2 (snd (sweep depth now st))"
    by (simp add: sweep_def Let_def st1_def [symmetric] st2_def [symmetric])
  then show ?thesis using i2 by (rule sameRooms_inv)
qed

lemma http_delete_transfer_sameRooms:
  "sameRooms st (snd (http_delete_transfer depth now tid st))"
proof (cases "map_of (fileTransfers st) tid")
  case None
  then show ?thesis by (simp add: http_delete_transfer_def ok_def)
next
  case (Some t)
  show ?thesis
    unfolding http_delete_transfer_def Some option.case by (rule release_sameRooms)
qed

lemma reachable_inv: "reachable_from s0 st \<Longrightarrow> registry_inv s0 \<Longrightarrow> registry_inv st"
  by (induction rule: reachable_from.induct)
     (simp_all add: on_connection_inv on_message_inv on_close_inv fire_timer_inv
        sweep_inv sameRooms_inv [OF http_delete_transfer_sameRooms])

lemma distinct_foldl_update:
  "distinct (map fst m) \<Longrightarrow>
   distinct (map fst (foldl (\<lambda>m e. AList.update (k e) (v e) m) m xs))"
  by (induction xs arbitrary: m) (simp_all add: distinct_update)

lemma startup_devices_distinct: "distinct (map fst (devices (startup devicesData roomsData)))"
  by (simp add: startup_def loadDevices_def distinct_foldl_update)

lemma startup_rooms_distinct: "distinct (map fst (rooms (startup devicesData roomsData)))"
  by (simp add: startup_def loadRooms_def distinct_foldl_update)

lemma startup_empty: "startup [] [] = initial_server"
  by (simp add: startup_def loadDevices_def loadRooms_def initial_server_def)

lemma inStep_inv:
  assumes "inStep st" "distinct (map fst (devices st))"
  shows "registry_inv st"
proof -
  have m: "fst e \<noteq> [] \<and> (\<forall>d\<in>set (members (snd e)). roomIdOf st d = Some (fst e))"
    if "e \<in> set (rooms st)" for e
    using assms(1) that by (auto simp: inStep_def list_all_iff)
  have "map_of (rooms st) [] = None"
  proof (cases "map_of (rooms st) []")
    case (Some r)
    from m [OF map_of_SomeD [OF Some]] show ?thesis by simp
  qed simp
  moreover have "room_inv st"
    unfolding room_inv_def
  proof (intro allI impI, elim conjE)
    fix rid r d assume a: "map_of (rooms st) rid = Some r" "d \<in> set (members r)"
    from m [OF map_of_SomeD [OF a(1)]] a(2) have "roomIdOf st d = Some rid" by simp
    then show "\<exists>dev. map_of (devices st) d = Some dev \<and> roomId dev = Some rid"
      by (auto simp: roomIdOf_def split: option.splits)
  qed
  ultimately show ?thesis using assms(2) by (simp add: registry_inv_def)
qed

lemma startup_inv:
  "inStep (startup devicesData roomsData) \<Longrightarrow> registry_inv (startup devicesData roomsData)"
  by (rule inStep_inv [OF _ startup_devices_distinct])

section \<open>Room ids are distinct\<close>

lemma js_isSpace_toLowerCase_char [simp]: "js_isSpace (toLowerCase_char c) = js_isSpace c"
proof -
  have "of_char c < (256::nat)" by (rule nat_of_char_less_256)
  then show ?thesis
    by (auto simp: js_isSpace_def toLowerCase_char_def Let_def)
qed

lemma dropWhile_toLowerCase:
  "dropWhile js_isSpace (toLowerCase s) = toLowerCase (dropWhile js_isSpace s)"
  by (induction s) (simp_all add: toLowerCase_def)

lemma js_trim_toLowerCase: "js_trim (toLowerCase s) = toLowerCase (js_trim s)"
proof -
  have r: "rev (toLowerCase s) = toLowerCase (rev s)" for s by (simp add: toLowerCase_def rev_map)
  show ?thesis
    by (simp add: js_trim_def dropWhile_toLowerCase r)
qed

lemma keepsNames_refl [simp]: "keepsNames st st"
  unfolding keepsNames_def by (rule exI [of _ "\<lambda>x. True"]) simp

lemma keepsNames_trans: "keepsNames a b \<Longrightarrow> keepsNames b c \<Longrightarrow> keepsNames a c"
  unfolding keepsNames_def by (metis filter_filter)

lemma keepsNames_same: "rooms st' = rooms st \<Longrightarrow> keepsNames st st'"
  unfolding keepsNames_def by (rule exI [of _ "\<lambda>x. True"]) (simp add: roomNames_def)

lemma sameRooms_keepsNames: "sameRooms st st' \<Longrightarrow> keepsNames st st'"
  by (rule keepsNames_same) (simp add: sameRooms_def)

lemma keepsNames_inv: "keepsNames st st' \<Longrightarrow> ids_inv st \<Longrightarrow> ids_inv st'"
  unfolding keepsNames_def ids_inv_def
  by (auto simp: distinct_map_filter)

lemma keepsNames_subset: "keepsNames st st' \<Longrightarrow> set (roomNames st') \<subseteq> set (roomNames st)"
  unfolding keepsNames_def by auto

lemma names_map_entry:
  "(\<And>v. g (f v) = g v) \<Longrightarrow>
   map (\<lambda>e. (fst e, g (snd e))) (AList.map_entry k f al) = map (\<lambda>e. (fst e, g (snd e))) al"
  by (induction al) auto

lemma names_delete:
  "map (\<lambda>e. (fst e, g (snd e))) (AList.delete k al) =
   filter (\<lambda>e. fst e \<noteq> k) (map (\<lambda>e. (fst e, g (snd e))) al)"
  by (induction al) auto

lemma keepsNames_delete: "rooms st' = AList.delete k (rooms st) \<Longrightarrow> keepsNames st st'"
  unfolding keepsNames_def roomNames_def by (rule exI [of _ "\<lambda>e. fst e \<noteq> k"]) (simp add: names_delete)

lemma keepsNames_members:
  "rooms st' = AList.map_entry k (\<lambda>x. x\<lparr>members := ms\<rparr>) (rooms st) \<Longrightarrow> keepsNames st st'"
  unfolding keepsNames_def roomNames_def
  by (rule exI [of _ "\<lambda>x. True"]) (simp add: names_map_entry)

lemma handleLeaveRoom_keepsNames: "keepsNames st (snd (handleLeaveRoom d st))"
proof (cases "map_of (devices st) d")
  case None
  then show ?thesis by (simp add: handleLeaveRoom_unknown throw_def)
next
  case (Some dev)
  show ?thesis
  proof (cases "js_truthy (roomId dev)")
    case False
    then show ?thesis using Some by (simp add: handleLeaveRoom_idle ok_def)
  next
    case True
    then obtain cur where cur: "roomId dev = Some cur" "cur \<noteq> []"
      by (cases "roomId dev") (auto simp: js_truthy_def)
    note R = handleLeaveRoom_regs(2) [OF Some cur]
    show ?thesis
    proof (cases "map_of (rooms st) cur")
      case None
      with R show ?thesis by (simp add: keepsNames_same)
    next
      case (Some r)
      with R show ?thesis
        by (cases "set_delete d (members r) = []") (simp_all add: keepsNames_delete keepsNames_members)
    qed
  qed
qed

lemma sweep_device_keepsNames: "keepsNames st (sweep_device now st e)"
proof -
  obtain d dev where e: "e = (d, dev)" by (cases e)
  from sweep_device_cases [of now st d dev] show ?thesis
  proof
    assume "sweep_device now st (d, dev) = st"
    then show ?thesis by (simp add: e)
  next
    assume a: "devices (sweep_device now st (d, dev)) = AList.delete d (devices st) \<and>
      rooms (sweep_device now st (d, dev)) =
      (case roomId dev of
         None \<Rightarrow> rooms st
       | Some cur \<Rightarrow>
          if cur = [] then rooms st
          else
           (case map_of (rooms st) cur of
              None \<Rightarrow> rooms st
            | Some r \<Rightarrow>
               if set_delete d (members r) = [] then AList.delete cur (rooms st)
               else AList.map_entry cur (\<lambda>x. x\<lparr>members := set_delete d (members r)\<rparr>)
                      (rooms st)))"
    show ?thesis
      unfolding e
      using a
      by (auto simp: keepsNames_same keepsNames_delete keepsNames_members split: option.splits if_splits)
  qed
qed

lemma foldl_sweep_device_keepsNames: "keepsNames st (foldl (sweep_device now) st es)"
proof (induction es arbitrary: st)
  case Nil
  then show ?case by simp
next
  case (Cons e es)
  from keepsNames_trans [OF sweep_device_keepsNames Cons.IH] show ?case by simp
qed

lemma sweep_keepsNames: "keepsNames st (snd (sweep depth now st))"
proof -
  define st1 where "st1 = foldl (sweep_connection now) st (activeConnections st)"
  define st2 where "st2 = foldl (sweep_device now) st1 (devices st1)"
  have k1: "keepsNames st st1"
    by (rule keepsNames_same) (simp add: st1_def foldl_sweep_connection_regs)
  have k2: "keepsNames st1 st2"
    unfolding st2_def by (rule foldl_sweep_device_keepsNames)
  have "sameRooms st2 (snd (foldl (\<lambda>r tid. andThen r (sweep_transfer depth now tid))
                             (ok st2) tids))" for tids
    using foldl_sweep_transfer_sameRooms [of "ok st2" depth now tids] by (simp add: ok_def)
  then have "sameRooms st2 (snd (sweep depth now st))"
    by (simp add: sweep_def Let_def st1_def [symmetric] st2_def [symmetric])
  from keepsNames_trans [OF keepsNames_trans [OF k1 k2] sameRooms_keepsNames [OF this]]
  show ?thesis .
qed


lemma names_update:
  "map (\<lambda>e. (fst e, g (snd e))) (AList.update k v al) =
   AList.update k (g v) (map (\<lambda>e. (fst e, g (snd e))) al)"
  by (induction al) auto

lemma ids_inv_update:
  assumes inv: "ids_inv st1" and R: "rooms st' = AList.update rid v (rooms st1)"
  shows "ids_inv st'"
proof -
  have N: "roomNames st' = AList.update rid (roomName v) (roomNames st1)"
    by (simp add: roomNames_def R names_update)
  show ?thesis
    using inv by (simp add: ids_inv_def N distinct_update)
qed

lemma andThen_keepsNames:
  assumes "keepsNames st (snd r)" "fst r = None \<Longrightarrow> keepsNames (snd r) (snd (k (snd r)))"
  shows "keepsNames st (snd (andThen r k))"
  using assms by (cases r; cases "fst r") (auto simp: andThen_def intro: keepsNames_trans)

lemma send_on_keepsNames: "keepsNames st (snd (send_on w f st))"
  by (rule keepsNames_same) (simp add: send_on_regs)

lemma auto_leave_keepsNames:
  "keepsNames st (snd (if c then handleLeaveRoom d st else ok st))"
  by (simp add: handleLeaveRoom_keepsNames ok_def)

lemma join_step_keepsNames:
  "keepsNames st1 (snd
    (let cur = (case map_of (rooms st1) frid of Some r \<Rightarrow> r | None \<Rightarrow> orphan);
         ms = set_add d (members cur);
         st2 = modify_room frid (\<lambda>r. r\<lparr>members := ms\<rparr>)
                 (modify_device d (\<lambda>x. x\<lparr>roomId := Some frid\<rparr>) st1)
     in andThen (send_on w (f ms) st2)
          (\<lambda>st3. ok (broadcastToRoom frid (g ms) (Some d) (broadcastDeviceList frid st3)))))"
  by (rule keepsNames_members [where k = frid and ms = "set_add d (members
        (case map_of (rooms st1) frid of Some r \<Rightarrow> r | None \<Rightarrow> orphan))"])
     (cases w; simp add: Let_def send_on_def ok_def throw_def andThen_def broadcastToRoom_regs
        broadcastDeviceList_regs modify_room_def modify_device_def)

lemma handleJoinRoom_keepsNames: "keepsNames st (snd (handleJoinRoom d rn rid st))"
proof (cases "map_of (devices st) d")
  case None
  then show ?thesis by (simp add: handleJoinRoom_def throw_def)
next
  case (Some dev)
  show ?thesis
    apply (simp only: handleJoinRoom_def Some option.case)
    apply (split option.split; intro conjI impI allI)
     apply (rule send_on_keepsNames)
    apply (split if_split; intro conjI impI)
     apply (rule send_on_keepsNames)
    apply (split option.split; intro conjI impI allI)
     apply (rule send_on_keepsNames)
    apply (split prod.split; intro allI impI)
    apply (rule andThen_keepsNames)
     apply (rule auto_leave_keepsNames)
    apply (rule join_step_keepsNames)
    done
qed

lemma andThen_ids_inv:
  assumes "ids_inv (snd r)" "fst r = None \<Longrightarrow> ids_inv (snd (k (snd r)))"
  shows "ids_inv (snd (andThen r k))"
  using assms by (cases r; cases "fst r") (auto simp: andThen_def)

lemma create_step_names:
  assumes inv: "ids_inv st1"
  shows "ids_inv (snd
    (let rid = generateRoomId now rnd;
         st2 = st1\<lparr>rooms := AList.update rid
                 \<lparr>roomName = nm, created = now, createdBy = d, members = [d]\<rparr> (rooms st1)\<rparr>;
         st3 = modify_device d (\<lambda>x. x\<lparr>roomId := Some rid\<rparr>) st2
     in andThen (send_on w (f rid) st3) (\<lambda>st4. ok (broadcastDeviceList rid st4))))"
  by (rule ids_inv_update [OF inv, where rid = "generateRoomId now rnd" and
        v = "\<lparr>roomName = nm, created = now, createdBy = d, members = [d]\<rparr>"])
     (cases w; simp add: Let_def send_on_def ok_def throw_def andThen_def
        broadcastDeviceList_regs modify_device_def)

lemma handleCreateRoom_names:
  assumes inv: "ids_inv st"
  shows "ids_inv (snd (handleCreateRoom d rn rid now rnd st))"
proof (cases "map_of (devices st) d")
  case None
  then show ?thesis using inv by (simp add: handleCreateRoom_def throw_def)
next
  case (Some dev)
  have s: "ids_inv (snd (send_on w f st))" for w f
    by (rule keepsNames_inv [OF send_on_keepsNames inv])
  have l: "ids_inv (snd (if js_truthy (roomId dev) then handleLeaveRoom d st else ok st))"
    by (rule keepsNames_inv [OF auto_leave_keepsNames inv])
  show ?thesis
    apply (simp only: handleCreateRoom_def Some option.case)
    apply (split option.split; intro conjI impI allI)
     apply (rule s)
    apply (split if_split; intro conjI impI)
     apply (rule s)
    apply (split option.split; intro conjI impI allI)
     prefer 2
     apply (rule s)
    apply (rule andThen_ids_inv)
     apply (rule l)
    apply (rule create_step_names [OF l])
    done
qed

lemma dispatch_names:
  assumes inv: "ids_inv st"
  shows "ids_inv (snd (dispatch depth now rnd d data st))"
proof -
  have k: "ids_inv st'" if "sameRooms st st'" for st'
    by (rule keepsNames_inv [OF sameRooms_keepsNames [OF that] inv])
  show ?thesis
  proof (cases data)
    case (In_legacy ty nm cn)
    show ?thesis
    proof (cases "js_truthy nm")
      case True
      then show ?thesis using In_legacy
        by (simp add: dispatch_def k [OF handleDeviceInfo_sameRooms])
    next
      case False
      show ?thesis
      proof (cases "map_of (devices st) d")
        case None
        then show ?thesis using inv In_legacy False by (simp add: dispatch_def throw_def)
      next
        case (Some dev)
        then show ?thesis using In_legacy False
          by (simp add: dispatch_def k [OF handleDeviceInfo_sameRooms])
      qed
    qed
  next
    case (In_unknown ty)
    have "keepsNames st (snd (dispatch depth now rnd d data st))"
      by (rule keepsNames_same)
         (simp_all add: In_unknown dispatch_def ok_def ws_send_def split: option.splits)
    then show ?thesis using inv by (rule keepsNames_inv)
  qed (simp_all add: dispatch_def inv handleCreateRoom_names
      keepsNames_inv [OF handleJoinRoom_keepsNames inv]
      keepsNames_inv [OF handleLeaveRoom_keepsNames inv]
      k [OF handleClientIdentify_sameRooms]
      k [OF handleDeviceInfo_sameRooms]
      k [OF handleFileTransfer_sameRooms]
      k [OF handleFileChunk_sameRooms]
      k [OF handleFileComplete_sameRooms]
      k [OF handleUpdateDeviceName_sameRooms]
      k [OF handleFileProgress_sameRooms]
      k [OF handlePing_sameRooms]
      k [OF handleTransferComplete_sameRooms]
      k [OF handleFileDownload_sameRooms]
      k [OF handleRequestMissingChunks_sameRooms]
      k [OF handleTransferRejected_sameRooms]
      k [OF handleTransferAccepted_sameRooms]
      k [OF handleTogglePinDevice_sameRooms]
      k [OF handleFileCancel_sameRooms])
qed

lemma ids_inv_rooms: "rooms st' = rooms st \<Longrightarrow> ids_inv st \<Longrightarrow> ids_inv st'"
  by (simp add: ids_inv_def roomNames_def)

lemma handleMessage_names:
  assumes inv: "ids_inv st"
  shows "ids_inv (handleMessage depth now rnd d data st)"
proof -
  obtain e st1 where r: "dispatch depth now rnd d data st = (e, st1)"
    by (cases "dispatch depth now rnd d data st")
  from dispatch_names [OF inv, of depth now rnd d data] r have i: "ids_inv st1" by simp
  have "ids_inv (ws_send w f st1)" for w f
    by (rule ids_inv_rooms [OF _ i]) (simp add: ws_send_def)
  then show ?thesis
    by (simp add: handleMessage_def r i split: option.splits)
qed

lemma on_message_names:
  assumes inv: "ids_inv st"
  shows "ids_inv (on_message depth w now rnd payload st)"
proof -
  have a: "ids_inv (st\<lparr>activeConnections := x\<rparr>)" for x
    by (rule ids_inv_rooms [OF _ inv]) simp
  have b: "ids_inv (ws_send w f (st\<lparr>activeConnections := x\<rparr>))" for w f x
    by (rule ids_inv_rooms [OF _ inv]) (simp add: ws_send_def)
  show ?thesis
    by (simp add: on_message_def Let_def inv a b handleMessage_names split: option.splits)
qed

lemma on_connection_rooms: "rooms (on_connection w req now st) = rooms st"
  by (simp add: on_connection_def Let_def ws_send_def modify_device_def
      split: option.splits prod.splits)

lemma on_close_rooms: "rooms (on_close w now st) = rooms st"
  by (simp add: on_close_def Let_def modify_device_def broadcastDeviceList_regs
      broadcastToRoom_regs split: option.splits)

lemma fire_timer_rooms: "rooms (fire_timer a st) = rooms st"
  by (simp add: fire_timer_def ws_send_def ws_close_regs split: timer_action.splits)

lemma reachable_names: "reachable_from s0 st \<Longrightarrow> ids_inv s0 \<Longrightarrow> ids_inv st"
proof (induction rule: reachable_from.induct)
  case reachable_start
  then show ?case .
next
  case (reachable_connection st w req now)
  then show ?case by (simp add: ids_inv_rooms [OF on_connection_rooms])
next
  case (reachable_message st depth w now rnd payload)
  then show ?case by (simp add: on_message_names)
next
  case (reachable_close st w now)
  then show ?case by (simp add: ids_inv_rooms [OF on_close_rooms])
next
  case (reachable_timer st delay a)
  then show ?case by (simp add: ids_inv_rooms [OF fire_timer_rooms])
next
  case (reachable_sweep st depth now)
  then show ?case by (simp add: keepsNames_inv [OF sweep_keepsNames])
next
  case (reachable_http_delete st depth now transferId)
  then show ?case
    by (simp add: keepsNames_inv [OF sameRooms_keepsNames [OF http_delete_transfer_sameRooms]])
qed

lemma startup_ids: "ids_inv (startup devicesData roomsData)"
  using startup_rooms_distinct [of devicesData roomsData]
  by (simp add: ids_inv_def roomNames_def comp_def)

section \<open>Frames of the room handlers\<close>

lemma announces_refl [simp]: "announces st st"
  by (simp add: announces_def)

lemma announces_trans:
  assumes "announces a b" "announces b c"
  shows "announces a c"
proof -
  from assms(1) obtain fs where fs: "outbox b = outbox a @ fs"
    "list_all (\<lambda>x. isPresence (snd x)) fs" by (auto simp: announces_def)
  from assms(2) obtain gs where gs: "outbox c = outbox b @ gs"
    "list_all (\<lambda>x. isPresence (snd x)) gs" by (auto simp: announces_def)
  have "outbox c = outbox a @ (fs @ gs) \<and> list_all (\<lambda>x. isPresence (snd x)) (fs @ gs)"
    using fs gs by simp
  then have "\<exists>hs. outbox c = outbox a @ hs \<and> list_all (\<lambda>x. isPresence (snd x)) hs" ..
  then show ?thesis using assms by (simp add: announces_def)
qed

lemma readyStateOf_sockets: "sockets st' = sockets st \<Longrightarrow> readyStateOf st' w = readyStateOf st w"
  by (simp add: readyStateOf_def)

lemma ws_send_announces: "isPresence m \<Longrightarrow> announces st (ws_send w m st)"
  by (simp add: announces_def ws_send_def)

lemma broadcast_one_announces: "isPresence m \<Longrightarrow> announces st (broadcast_one m e st d)"
  by (simp add: broadcast_one_def ws_send_announces split: option.splits)

lemma foldl_broadcast_one_announces:
  "isPresence m \<Longrightarrow> announces st (foldl (broadcast_one m e) st ds)"
proof (induction ds arbitrary: st)
  case Nil
  then show ?case by simp
next
  case (Cons a ds)
  from announces_trans [OF broadcast_one_announces [OF Cons.prems] Cons.IH [OF Cons.prems]]
  show ?case by simp
qed

lemma broadcastToRoom_announces: "isPresence m \<Longrightarrow> announces st (broadcastToRoom rid m e st)"
  by (simp add: broadcastToRoom_def foldl_broadcast_one_announces split: option.splits)

lemma broadcastDeviceList_announces: "announces st (broadcastDeviceList rid st)"
  by (simp add: broadcastDeviceList_def Let_def broadcastToRoom_announces isPresence_def
      split: option.splits)

lemma handleLeaveRoom_frames:
  assumes dev: "map_of (devices st) d = Some dev" and cur: "roomId dev = Some A" "A \<noteq> []"
    and w: "ws dev = Some w"
  shows "fst (handleLeaveRoom d st) = None"
    and "sockets (snd (handleLeaveRoom d st)) = sockets st"
    and "\<exists>bs. outbox (snd (handleLeaveRoom d st)) =
            outbox st @ bs @ (if readyStateOf st w = OPEN then [(w, Out_roomLeft)] else []) \<and>
          list_all (\<lambda>x. isPresence (snd x)) bs"
proof -
  define st1 where "st1 =
     (case map_of (rooms st) A of
        None \<Rightarrow> st
      | Some r \<Rightarrow>
         (let ms = set_delete d (members r) in
          if length ms = 0 then st\<lparr>rooms := AList.delete A (rooms st)\<rparr>
          else broadcastToRoom A (Out_deviceLeft d (displayName dev) (int (length ms)) None)
                 (Some d) (modify_room A (\<lambda>r. r\<lparr>members := ms\<rparr>) st)))"
  define st2 where "st2 = modify_device d (\<lambda>x. x\<lparr>roomId := None\<rparr>) st1"
  have e: "handleLeaveRoom d st = ok (ws_send w Out_roomLeft st2)"
    by (simp add: handleLeaveRoom_def dev cur w send_on_def st1_def st2_def Let_def)
  have s1: "sockets st1 = sockets st"
    by (simp add: st1_def Let_def broadcastToRoom_regs modify_room_def split: option.splits)
  have p: "isPresence (Out_deviceLeft a b c e)" for a b c e by (simp add: isPresence_def)
  have "\<exists>bs. outbox st1 = outbox st @ bs \<and> list_all (\<lambda>x. isPresence (snd x)) bs"
  proof (cases "map_of (rooms st) A")
    case None
    then show ?thesis by (simp add: st1_def)
  next
    case (Some r)
    show ?thesis
    proof (cases "set_delete d (members r) = []")
      case True
      then show ?thesis by (simp add: st1_def Some)
    next
      case False
      have "announces (modify_room A (\<lambda>x. x\<lparr>members := set_delete d (members r)\<rparr>) st) st1"
        using broadcastToRoom_announces [OF p] by (simp add: st1_def Some False Let_def)
      then show ?thesis by (simp add: announces_def modify_room_def)
    qed
  qed
  then obtain bs where bs: "outbox st1 = outbox st @ bs" "list_all (\<lambda>x. isPresence (snd x)) bs"
    by blast
  have r2: "readyStateOf st2 w = readyStateOf st w"
    by (rule readyStateOf_sockets) (simp add: st2_def modify_device_def s1)
  show "fst (handleLeaveRoom d st) = None" by (simp add: e ok_def)
  show "sockets (snd (handleLeaveRoom d st)) = sockets st"
    by (simp add: e ok_def ws_send_def st2_def modify_device_def s1)
  have "outbox (snd (handleLeaveRoom d st)) =
            outbox st @ bs @ (if readyStateOf st w = OPEN then [(w, Out_roomLeft)] else [])"
    by (simp add: e ok_def ws_send_def r2) (simp add: st2_def modify_device_def bs)
  with bs(2) show "\<exists>bs. outbox (snd (handleLeaveRoom d st)) =
            outbox st @ bs @ (if readyStateOf st w = OPEN then [(w, Out_roomLeft)] else []) \<and>
          list_all (\<lambda>x. isPresence (snd x)) bs" by blast
qed

lemma join_step_effect:
  fixes st1 :: server and frid d :: string and orphan :: room and w :: ws
    and f g :: "string list \<Rightarrow> frame"
  defines "cur \<equiv> (case map_of (rooms st1) frid of Some r \<Rightarrow> r | None \<Rightarrow> orphan)"
  defines "r \<equiv>
    (let cur = (case map_of (rooms st1) frid of Some r \<Rightarrow> r | None \<Rightarrow> orphan);
         ms = set_add d (members cur);
         st2 = modify_room frid (\<lambda>r. r\<lparr>members := ms\<rparr>)
                 (modify_device d (\<lambda>x. x\<lparr>roomId := Some frid\<rparr>) st1)
     in andThen (send_on (Some w) (f ms) st2)
          (\<lambda>st3. ok (broadcastToRoom frid (g ms) (Some d) (broadcastDeviceList frid st3))))"
  assumes g: "\<And>ms. isPresence (g ms)"
  shows "fst r = None"
    and "devices (snd r) = AList.map_entry d (\<lambda>x. x\<lparr>roomId := Some frid\<rparr>) (devices st1)"
    and "rooms (snd r) =
           AList.map_entry frid (\<lambda>x. x\<lparr>members := set_add d (members cur)\<rparr>) (rooms st1)"
    and "\<exists>cs. outbox (snd r) =
            outbox st1 @
            (if readyStateOf st1 w = OPEN then [(w, f (set_add d (members cur)))] else []) @ cs \<and>
          list_all (\<lambda>x. isPresence (snd x)) cs"
proof -
  define ms where "ms = set_add d (members cur)"
  define st2 where "st2 = modify_room frid (\<lambda>r. r\<lparr>members := ms\<rparr>)
                 (modify_device d (\<lambda>x. x\<lparr>roomId := Some frid\<rparr>) st1)"
  define st3 where "st3 = ws_send w (f ms) st2"
  have e: "r = ok (broadcastToRoom frid (g ms) (Some d) (broadcastDeviceList frid st3))"
    by (simp add: r_def Let_def send_on_def andThen_def ok_def st3_def st2_def ms_def cur_def)
  have a: "announces st3 (broadcastToRoom frid (g ms) (Some d) (broadcastDeviceList frid st3))"
    by (rule announces_trans [OF broadcastDeviceList_announces broadcastToRoom_announces [OF g]])
  have r2: "readyStateOf st2 w = readyStateOf st1 w"
    by (rule readyStateOf_sockets) (simp add: st2_def modify_device_def modify_room_def)
  have o3: "outbox st3 = outbox st1 @ (if readyStateOf st1 w = OPEN then [(w, f ms)] else [])"
    by (simp add: st3_def ws_send_def r2) (simp add: st2_def modify_device_def modify_room_def)
  show "fst r = None" by (simp add: e ok_def)
  show "devices (snd r) = AList.map_entry d (\<lambda>x. x\<lparr>roomId := Some frid\<rparr>) (devices st1)"
    using a by (simp add: e ok_def announces_def st3_def ws_send_def st2_def modify_device_def
        modify_room_def)
  show "rooms (snd r) =
           AList.map_entry frid (\<lambda>x. x\<lparr>members := set_add d (members cur)\<rparr>) (rooms st1)"
    using a by (simp add: e ok_def announces_def st3_def ws_send_def st2_def modify_device_def
        modify_room_def ms_def)
  from a obtain cs where "outbox (snd r) = outbox st3 @ cs" "list_all (\<lambda>x. isPresence (snd x)) cs"
    by (auto simp: e ok_def announces_def)
  then show "\<exists>cs. outbox (snd r) =
            outbox st1 @
            (if readyStateOf st1 w = OPEN then [(w, f (set_add d (members cur)))] else []) @ cs \<and>
          list_all (\<lambda>x. isPresence (snd x)) cs"
    by (simp add: o3 ms_def)
qed

lemma create_step_effect:
  fixes st1 :: server and now :: int and rnd nm d :: string and w :: ws
    and f :: "string \<Rightarrow> frame"
  defines "r \<equiv>
    (let rid = generateRoomId now rnd;
         st2 = st1\<lparr>rooms := AList.update rid
                 \<lparr>roomName = nm, created = now, createdBy = d, members = [d]\<rparr> (rooms st1)\<rparr>;
         st3 = modify_device d (\<lambda>x. x\<lparr>roomId := Some rid\<rparr>) st2
     in andThen (send_on (Some w) (f rid) st3) (\<lambda>st4. ok (broadcastDeviceList rid st4)))"
  shows "fst r = None"
    and "devices (snd r) =
           AList.map_entry d (\<lambda>x. x\<lparr>roomId := Some (generateRoomId now rnd)\<rparr>) (devices st1)"
    and "rooms (snd r) =
           AList.update (generateRoomId now rnd)
             \<lparr>roomName = nm, created = now, createdBy = d, members = [d]\<rparr> (rooms st1)"
    and "\<exists>cs. outbox (snd r) =
            outbox st1 @
            (if readyStateOf st1 w = OPEN then [(w, f (generateRoomId now rnd))] else []) @ cs \<and>
          list_all (\<lambda>x. isPresence (snd x)) cs"
proof -
  define rid where "rid = generateRoomId now rnd"
  define st3 where "st3 = modify_device d (\<lambda>x. x\<lparr>roomId := Some rid\<rparr>)
     (st1\<lparr>rooms := AList.update rid
                 \<lparr>roomName = nm, created = now, createdBy = d, members = [d]\<rparr> (rooms st1)\<rparr>)"
  define st4 where "st4 = ws_send w (f rid) st3"
  have e: "r = ok (broadcastDeviceList rid st4)"
    by (simp add: r_def Let_def send_on_def andThen_def ok_def st4_def st3_def rid_def)
  have a: "announces st4 (broadcastDeviceList rid st4)"
    by (rule broadcastDeviceList_announces)
  have r2: "readyStateOf st3 w = readyStateOf st1 w"
    by (rule readyStateOf_sockets) (simp add: st3_def modify_device_def)
  have o4: "outbox st4 = outbox st1 @ (if readyStateOf st1 w = OPEN then [(w, f rid)] else [])"
    by (simp add: st4_def ws_send_def r2) (simp add: st3_def modify_device_def)
  show "fst r = None" by (simp add: e ok_def)
  show "devices (snd r) =
           AList.map_entry d (\<lambda>x. x\<lparr>roomId := Some (generateRoomId now rnd)\<rparr>) (devices st1)"
    using a by (simp add: e ok_def announces_def st4_def ws_send_def st3_def modify_device_def
        rid_def)
  show "rooms (snd r) =
           AList.update (generateRoomId now rnd)
             \<lparr>roomName = nm, created = now, createdBy = d, members = [d]\<rparr> (rooms st1)"
    using a by (simp add: e ok_def announces_def st4_def ws_send_def st3_def modify_device_def
        rid_def)
  from a obtain cs where "outbox (snd r) = outbox st4 @ cs" "list_all (\<lambda>x. isPresence (snd x)) cs"
    by (auto simp: e ok_def announces_def)
  then show "\<exists>cs. outbox (snd r) =
            outbox st1 @
            (if readyStateOf st1 w = OPEN then [(w, f (generateRoomId now rnd))] else []) @ cs \<and>
          list_all (\<lambda>x. isPresence (snd x)) cs"
    by (simp add: o4 rid_def)
qed

section \<open>Entering a room\<close>

lemma distinct_all_same: "distinct xs \<Longrightarrow> (\<And>x. x \<in> set xs \<Longrightarrow> x = a) \<Longrightarrow> xs = [] \<or> xs = [a]"
proof (induction xs)
  case Nil
  then show ?case by simp
next
  case (Cons x xs)
  then have "xs = [] \<or> xs = [a]" by simp
  moreover have "x = a" using Cons.prems(2) by simp
  ultimately show ?case using Cons.prems(1) by auto
qed

lemma distinct_rooms: "ids_inv st \<Longrightarrow> distinct (map fst (rooms st))"
  by (simp add: ids_inv_def roomNames_def comp_def)

lemma memberOf_cases:
  assumes inv: "registry_inv st" and names: "ids_inv st"
  shows "memberOf st d = [] \<or> (\<exists>A. roomIdOf st d = Some A \<and> memberOf st d = [A])"
proof (cases "memberOf st d = []")
  case True
  then show ?thesis by simp
next
  case False
  have dk: "distinct (map fst (rooms st))" by (rule distinct_rooms [OF names])
  have at: "roomIdOf st d = Some rid" if "rid \<in> set (memberOf st d)" for rid
  proof -
    from that obtain r where r: "(rid, r) \<in> set (rooms st)" "d \<in> set (members r)"
      by (auto simp: memberOf_def)
    from r(1) dk have "map_of (rooms st) rid = Some r" by simp
    from inv_member [OF inv this r(2)] show ?thesis by (auto simp: roomIdOf_def)
  qed
  from False obtain A where A: "A \<in> set (memberOf st d)" by (cases "memberOf st d") auto
  have "distinct (memberOf st d)"
    unfolding memberOf_def using dk by (rule distinct_map_filter)
  moreover have "x = A" if "x \<in> set (memberOf st d)" for x
    using at [OF that] at [OF A] by simp
  ultimately have "memberOf st d = [] \<or> memberOf st d = [A]" by (rule distinct_all_same)
  with False at [OF A] show ?thesis by simp
qed

lemma andThen_None: "andThen (None, s) k = k s"
  by (simp add: andThen_def)

lemma js_trim_Nil [simp]: "js_trim [] = []"
  by (simp add: js_trim_def)

lemma handleJoinRoom_cases:
  assumes dev: "map_of (devices st) d = Some dev" and w: "ws dev = Some w"
  shows "(\<exists>m. handleJoinRoom d rn ri st = ok (ws_send w (Out_roomError m) st)) \<or>
         (\<exists>q B rb. js_or rn ri = Some q \<and> js_trim q \<noteq> [] \<and>
            findRoomByName (js_trim (toLowerCase q)) st = Some (B, rb))"
  by (auto simp: handleJoinRoom_def dev w send_on_def split: option.splits)

lemma handleJoinRoom_found:
  assumes dev: "map_of (devices st) d = Some dev" and w: "ws dev = Some w"
    and q: "js_or rn ri = Some q" "js_trim q \<noteq> []"
    and found: "findRoomByName (js_trim (toLowerCase q)) st = Some (B, rb)"
    and L: "(if js_truthy (roomId dev) then handleLeaveRoom d st else ok st) = (None, st1)"
  shows "handleJoinRoom d rn ri st =
    (let cur = (case map_of (rooms st1) B of Some r \<Rightarrow> r
                | None \<Rightarrow> rb\<lparr>members := set_delete d (members rb)\<rparr>);
         ms = set_add d (members cur);
         st2 = modify_room B (\<lambda>r. r\<lparr>members := ms\<rparr>)
                 (modify_device d (\<lambda>x. x\<lparr>roomId := Some B\<rparr>) st1)
     in andThen (send_on (Some w) (Out_roomJoined B (roomName rb) (length ms)) st2)
          (\<lambda>st3. ok (broadcastToRoom B (Out_deviceJoined d (displayName dev) (length ms))
                        (Some d) (broadcastDeviceList B st3))))"
proof -
  have qf: "(q = []) = False" "(js_trim q = []) = False" using q(2) by auto
  show ?thesis
    unfolding handleJoinRoom_def
    by (simp only: dev option.case q qf simp_thms if_False found prod.case L andThen_None w)
qed

lemma handleCreateRoom_cases:
  assumes dev: "map_of (devices st) d = Some dev" and w: "ws dev = Some w"
  shows "(\<exists>m. handleCreateRoom d rn ri now rnd st = ok (ws_send w (Out_roomError m) st)) \<or>
         (\<exists>q. js_or rn ri = Some q \<and> js_trim q \<noteq> [] \<and>
            findRoomByName (js_trim (toLowerCase q)) st = None)"
  by (auto simp: handleCreateRoom_def dev w send_on_def split: option.splits)

lemma handleCreateRoom_free:
  assumes dev: "map_of (devices st) d = Some dev" and w: "ws dev = Some w"
    and q: "js_or rn ri = Some q" "js_trim q \<noteq> []"
    and found: "findRoomByName (js_trim (toLowerCase q)) st = None"
    and L: "(if js_truthy (roomId dev) then handleLeaveRoom d st else ok st) = (None, st1)"
  shows "handleCreateRoom d rn ri now rnd st =
    (let rid = generateRoomId now rnd;
         st2 = st1\<lparr>rooms := AList.update rid
                 \<lparr>roomName = js_trim q, created = now, createdBy = d, members = [d]\<rparr>
                 (rooms st1)\<rparr>;
         st3 = modify_device d (\<lambda>x. x\<lparr>roomId := Some rid\<rparr>) st2
     in andThen (send_on (Some w) (Out_roomCreated rid (js_trim q)) st3)
          (\<lambda>st4. ok (broadcastDeviceList rid st4)))"
proof -
  have qf: "(q = []) = False" "(js_trim q = []) = False" using q(2) by auto
  show ?thesis
    unfolding handleCreateRoom_def
    by (simp only: dev option.case q qf simp_thms if_False found L andThen_None w)
qed

lemma find_SomeD: "List.find P xs = Some x \<Longrightarrow> x \<in> set xs \<and> P x"
  by (induction xs) (auto split: if_splits)

lemma found_in_rooms:
  assumes names: "ids_inv st" and found: "findRoomByName lower st = Some (B, rb)"
  shows "map_of (rooms st) B = Some rb" "toLowerCase (roomName rb) = lower"
proof -
  from found have "(B, rb) \<in> set (rooms st) \<and> toLowerCase (roomName rb) = lower"
    by (auto simp: findRoomByName_def dest: find_SomeD)
  then show "map_of (rooms st) B = Some rb" "toLowerCase (roomName rb) = lower"
    using distinct_rooms [OF names] by simp_all
qed

lemma find_after:
  "(\<And>y. y \<in> set ys \<Longrightarrow> \<not> P y) \<Longrightarrow> P x \<Longrightarrow> List.find P (ys @ x # zs) = Some x"
  by (induction ys) auto

lemma first_with_key:
  assumes "map_of xs k = Some v"
  shows "\<exists>zs. xs = takeWhile (\<lambda>e. fst e \<noteq> k) xs @ (k, v) # zs"
  using assms
proof (induction xs)
  case Nil
  then show ?case by simp
next
  case (Cons a xs)
  show ?case
  proof (cases "fst a = k")
    case True
    with Cons.prems have "a = (k, v)" by (cases a) simp
    then show ?thesis by simp
  next
    case False
    with Cons.prems have "map_of xs k = Some v" by (cases a) simp
    from Cons.IH [OF this] obtain zs where "xs = takeWhile (\<lambda>e. fst e \<noteq> k) xs @ (k, v) # zs"
      by blast
    then have "a # xs = takeWhile (\<lambda>e. fst e \<noteq> k) (a # xs) @ (k, v) # zs"
      using False by simp
    then show ?thesis by blast
  qed
qed

text \<open>The room the lookup loop stops at: the first, in the order of the map, with the name.\<close>

lemma find_first_named:
  assumes r: "map_of (rooms st) rid = Some r"
    and nm: "toLowerCase (roomName r) = lower"
    and first: "list_all (\<lambda>e. toLowerCase (roomName (snd e)) \<noteq> lower)
                  (takeWhile (\<lambda>e. fst e \<noteq> rid) (rooms st))"
  shows "findRoomByName lower st = Some (rid, r)"
proof -
  from first_with_key [OF r] obtain zs where
    e: "rooms st = takeWhile (\<lambda>e. fst e \<noteq> rid) (rooms st) @ (rid, r) # zs" by blast
  have "List.find (\<lambda>(k, x). toLowerCase (roomName x) = lower)
          (takeWhile (\<lambda>e. fst e \<noteq> rid) (rooms st) @ (rid, r) # zs) = Some (rid, r)"
    by (rule find_after) (use first nm in \<open>auto simp: list_all_iff\<close>)
  with e show ?thesis by (simp add: findRoomByName_def)
qed

lemma auto_leave_effect:
  assumes dev: "map_of (devices st) d = Some dev" and w: "ws dev = Some w"
  obtains st1 bs where
    "(if js_truthy (roomId dev) then handleLeaveRoom d st else ok st) = (None, st1)"
    "sockets st1 = sockets st"
    "outbox st1 = outbox st @ bs @
       (if js_truthy (roomId dev) \<and> readyStateOf st w = OPEN then [(w, Out_roomLeft)] else [])"
    "list_all (\<lambda>x. isPresence (snd x)) bs"
    "devices st1 =
       (if js_truthy (roomId dev) then AList.map_entry d (\<lambda>x. x\<lparr>roomId := None\<rparr>) (devices st)
        else devices st)"
    "rooms st1 =
       (case roomId dev of
          None \<Rightarrow> rooms st
        | Some A \<Rightarrow>
            if A = [] then rooms st
            else
              (case map_of (rooms st) A of
                 None \<Rightarrow> rooms st
               | Some r \<Rightarrow>
                   if set_delete d (members r) = [] then AList.delete A (rooms st)
                   else AList.map_entry A (\<lambda>x. x\<lparr>members := set_delete d (members r)\<rparr>)
                          (rooms st)))"
proof (cases "js_truthy (roomId dev)")
  case False
  show ?thesis
    by (rule that [of st "[]"])
       (use False in \<open>auto simp: ok_def js_truthy_def split: option.splits\<close>)
next
  case True
  then obtain A where A: "roomId dev = Some A" "A \<noteq> []"
    by (cases "roomId dev") (auto simp: js_truthy_def)
  note fr = handleLeaveRoom_frames [OF dev A w]
  note rg = handleLeaveRoom_regs [OF dev A]
  from fr(3) obtain bs where bs:
    "outbox (snd (handleLeaveRoom d st)) =
       outbox st @ bs @ (if readyStateOf st w = OPEN then [(w, Out_roomLeft)] else [])"
    "list_all (\<lambda>x. isPresence (snd x)) bs" by blast
  show ?thesis
  proof (rule that [of "snd (handleLeaveRoom d st)" bs])
    show "(if js_truthy (roomId dev) then handleLeaveRoom d st else ok st) =
          (None, snd (handleLeaveRoom d st))"
      using fr(1) True by (cases "handleLeaveRoom d st") simp
    show "sockets (snd (handleLeaveRoom d st)) = sockets st" by (rule fr(2))
    show "outbox (snd (handleLeaveRoom d st)) = outbox st @ bs @
       (if js_truthy (roomId dev) \<and> readyStateOf st w = OPEN then [(w, Out_roomLeft)] else [])"
      using bs(1) True by simp
    show "list_all (\<lambda>x. isPresence (snd x)) bs" by (rule bs(2))
    show "devices (snd (handleLeaveRoom d st)) =
       (if js_truthy (roomId dev) then AList.map_entry d (\<lambda>x. x\<lparr>roomId := None\<rparr>) (devices st)
        else devices st)"
      using rg(1) True by simp
    show "rooms (snd (handleLeaveRoom d st)) =
       (case roomId dev of
          None \<Rightarrow> rooms st
        | Some A \<Rightarrow>
            if A = [] then rooms st
            else
              (case map_of (rooms st) A of
                 None \<Rightarrow> rooms st
               | Some r \<Rightarrow>
                   if set_delete d (members r) = [] then AList.delete A (rooms st)
                   else AList.map_entry A (\<lambda>x. x\<lparr>members := set_delete d (members r)\<rparr>)
                          (rooms st)))"
      using rg(2) A by simp
  qed
qed

text \<open>What the automatic leave does to the room the device was in, and to the others.\<close>

lemma auto_leave_rooms:
  assumes R: "rooms st1 =
       (case roomId dev of
          None \<Rightarrow> rooms st
        | Some A \<Rightarrow>
            if A = [] then rooms st
            else
              (case map_of (rooms st) A of
                 None \<Rightarrow> rooms st
               | Some r \<Rightarrow>
                   if set_delete d (members r) = [] then AList.delete A (rooms st)
                   else AList.map_entry A (\<lambda>x. x\<lparr>members := set_delete d (members r)\<rparr>)
                          (rooms st)))"
  shows "roomId dev \<noteq> Some B \<Longrightarrow> map_of (rooms st1) B = map_of (rooms st) B"
    and "roomId dev = Some B \<Longrightarrow> B \<noteq> [] \<Longrightarrow> map_of (rooms st) B = Some rb \<Longrightarrow>
         map_of (rooms st1) B =
           (if set_delete d (members rb) = [] then None
            else Some (rb\<lparr>members := set_delete d (members rb)\<rparr>))"
    and "\<not> js_truthy (roomId dev) \<Longrightarrow> rooms st1 = rooms st"
proof -
  show "map_of (rooms st1) B = map_of (rooms st) B" if "roomId dev \<noteq> Some B"
    using that R by (auto simp: delete_conv' map_of_map_entry_at split: option.splits)
  show "map_of (rooms st1) B =
           (if set_delete d (members rb) = [] then None
            else Some (rb\<lparr>members := set_delete d (members rb)\<rparr>))"
    if "roomId dev = Some B" "B \<noteq> []" "map_of (rooms st) B = Some rb"
    using that R by (auto simp: delete_conv' map_of_map_entry_at)
  show "rooms st1 = rooms st" if "\<not> js_truthy (roomId dev)"
    using that R by (auto simp: js_truthy_def split: option.splits)
qed

lemma handleMessage_joinRoom:
  "fst (handleJoinRoom d rn ri st) = None \<Longrightarrow>
   handleMessage depth now rnd d (In_joinRoom rn ri) st = snd (handleJoinRoom d rn ri st)"
  by (cases "handleJoinRoom d rn ri st") (simp add: handleMessage_def dispatch_def)

lemma handleMessage_createRoom:
  "fst (handleCreateRoom d rn ri now rnd st) = None \<Longrightarrow>
   handleMessage depth now rnd d (In_createRoom rn ri) st =
   snd (handleCreateRoom d rn ri now rnd st)"
  by (cases "handleCreateRoom d rn ri now rnd st") (simp add: handleMessage_def dispatch_def)

lemma join_found_effect:
  assumes dev: "map_of (devices st) d = Some dev" and w: "ws dev = Some w"
    and q: "js_or rn ri = Some q" "js_trim q \<noteq> []"
    and found: "findRoomByName (js_trim (toLowerCase q)) st = Some (B, rb)"
  obtains sl :: server and bs cs cur where
    "fst (handleJoinRoom d rn ri st) = None"
    "devices sl =
       (if js_truthy (roomId dev) then AList.map_entry d (\<lambda>x. x\<lparr>roomId := None\<rparr>) (devices st)
        else devices st)"
    "rooms sl =
       (case roomId dev of
          None \<Rightarrow> rooms st
        | Some A \<Rightarrow>
            if A = [] then rooms st
            else
              (case map_of (rooms st) A of
                 None \<Rightarrow> rooms st
               | Some r \<Rightarrow>
                   if set_delete d (members r) = [] then AList.delete A (rooms st)
                   else AList.map_entry A (\<lambda>x. x\<lparr>members := set_delete d (members r)\<rparr>)
                          (rooms st)))"
    "cur = (case map_of (rooms sl) B of Some r \<Rightarrow> r
            | None \<Rightarrow> rb\<lparr>members := set_delete d (members rb)\<rparr>)"
    "devices (snd (handleJoinRoom d rn ri st)) =
       AList.map_entry d (\<lambda>x. x\<lparr>roomId := Some B\<rparr>) (devices sl)"
    "rooms (snd (handleJoinRoom d rn ri st)) =
       AList.map_entry B (\<lambda>x. x\<lparr>members := set_add d (members cur)\<rparr>) (rooms sl)"
    "outbox (snd (handleJoinRoom d rn ri st)) =
       outbox st @ bs @
       (if js_truthy (roomId dev) \<and> readyStateOf st w = OPEN then [(w, Out_roomLeft)] else []) @
       (if readyStateOf st w = OPEN
        then [(w, Out_roomJoined B (roomName rb) (length (set_add d (members cur))))] else []) @
       cs"
    "list_all (\<lambda>x. isPresence (snd x)) bs"
    "list_all (\<lambda>x. isPresence (snd x)) cs"
proof -
  obtain st1 bs where l:
    "(if js_truthy (roomId dev) then handleLeaveRoom d st else ok st) = (None, st1)"
    "sockets st1 = sockets st"
    "outbox st1 = outbox st @ bs @
       (if js_truthy (roomId dev) \<and> readyStateOf st w = OPEN then [(w, Out_roomLeft)] else [])"
    "list_all (\<lambda>x. isPresence (snd x)) bs"
    "devices st1 =
       (if js_truthy (roomId dev) then AList.map_entry d (\<lambda>x. x\<lparr>roomId := None\<rparr>) (devices st)
        else devices st)"
    "rooms st1 =
       (case roomId dev of
          None \<Rightarrow> rooms st
        | Some A \<Rightarrow>
            if A = [] then rooms st
            else
              (case map_of (rooms st) A of
                 None \<Rightarrow> rooms st
               | Some r \<Rightarrow>
                   if set_delete d (members r) = [] then AList.delete A (rooms st)
                   else AList.map_entry A (\<lambda>x. x\<lparr>members := set_delete d (members r)\<rparr>)
                          (rooms st)))"
    by (rule auto_leave_effect [OF dev w])
  define cur where "cur = (case map_of (rooms st1) B of Some r \<Rightarrow> r
            | None \<Rightarrow> rb\<lparr>members := set_delete d (members rb)\<rparr>)"
  note e = handleJoinRoom_found [OF dev w q found l(1)]
  have p: "isPresence (Out_deviceJoined d (displayName dev) (length ms))" for ms
    by (simp add: isPresence_def)
  note s = join_step_effect [where g = "\<lambda>ms. Out_deviceJoined d (displayName dev) (length ms)"
      and ?st1.0 = st1 and frid = B and orphan = "rb\<lparr>members := set_delete d (members rb)\<rparr>"
      and d = d and w = w and f = "\<lambda>ms. Out_roomJoined B (roomName rb) (length ms)",
      OF p, folded e cur_def]
  have o: "readyStateOf st1 w = readyStateOf st w"
    by (rule readyStateOf_sockets [OF l(2)])
  from s(4) obtain cs where cs: "outbox (snd (handleJoinRoom d rn ri st)) =
       outbox st1 @
       (if readyStateOf st1 w = OPEN
        then [(w, Out_roomJoined B (roomName rb) (length (set_add d (members cur))))] else []) @
       cs" "list_all (\<lambda>x. isPresence (snd x)) cs" by blast
  show ?thesis
  proof (rule that [where sl = st1 and bs = bs and cs = cs and cur = cur])
    show "outbox (snd (handleJoinRoom d rn ri st)) =
       outbox st @ bs @
       (if js_truthy (roomId dev) \<and> readyStateOf st w = OPEN then [(w, Out_roomLeft)] else []) @
       (if readyStateOf st w = OPEN
        then [(w, Out_roomJoined B (roomName rb) (length (set_add d (members cur))))] else []) @
       cs"
      by (simp only: cs(1) l(3) o append_assoc)
  qed (rule s(1) l(5) l(6) cur_def s(2) s(3) l(4) cs(2))+
qed

lemma create_free_effect:
  assumes dev: "map_of (devices st) d = Some dev" and w: "ws dev = Some w"
    and q: "js_or rn ri = Some q" "js_trim q \<noteq> []"
    and found: "findRoomByName (js_trim (toLowerCase q)) st = None"
  obtains sl :: server and bs cs where
    "fst (handleCreateRoom d rn ri now rnd st) = None"
    "devices sl =
       (if js_truthy (roomId dev) then AList.map_entry d (\<lambda>x. x\<lparr>roomId := None\<rparr>) (devices st)
        else devices st)"
    "rooms sl =
       (case roomId dev of
          None \<Rightarrow> rooms st
        | Some A \<Rightarrow>
            if A = [] then rooms st
            else
              (case map_of (rooms st) A of
                 None \<Rightarrow> rooms st
               | Some r \<Rightarrow>
                   if set_delete d (members r) = [] then AList.delete A (rooms st)
                   else AList.map_entry A (\<lambda>x. x\<lparr>members := set_delete d (members r)\<rparr>)
                          (rooms st)))"
    "devices (snd (handleCreateRoom d rn ri now rnd st)) =
       AList.map_entry d (\<lambda>x. x\<lparr>roomId := Some (generateRoomId now rnd)\<rparr>) (devices sl)"
    "rooms (snd (handleCreateRoom d rn ri now rnd st)) =
       AList.update (generateRoomId now rnd)
         \<lparr>roomName = js_trim q, created = now, createdBy = d, members = [d]\<rparr> (rooms sl)"
    "outbox (snd (handleCreateRoom d rn ri now rnd st)) =
       outbox st @ bs @
       (if js_truthy (roomId dev) \<and> readyStateOf st w = OPEN then [(w, Out_roomLeft)] else []) @
       (if readyStateOf st w = OPEN
        then [(w, Out_roomCreated (generateRoomId now rnd) (js_trim q))] else []) @
       cs"
    "list_all (\<lambda>x. isPresence (snd x)) bs"
    "list_all (\<lambda>x. isPresence (snd x)) cs"
proof -
  obtain st1 bs where l:
    "(if js_truthy (roomId dev) then handleLeaveRoom d st else ok st) = (None, st1)"
    "sockets st1 = sockets st"
    "outbox st1 = outbox st @ bs @
       (if js_truthy (roomId dev) \<and> readyStateOf st w = OPEN then [(w, Out_roomLeft)] else [])"
    "list_all (\<lambda>x. isPresence (snd x)) bs"
    "devices st1 =
       (if js_truthy (roomId dev) then AList.map_entry d (\<lambda>x. x\<lparr>roomId := None\<rparr>) (devices st)
        else devices st)"
    "rooms st1 =
       (case roomId dev of
          None \<Rightarrow> rooms st
        | Some A \<Rightarrow>
            if A = [] then rooms st
            else
              (case map_of (rooms st) A of
                 None \<Rightarrow> rooms st
               | Some r \<Rightarrow>
                   if set_delete d (members r) = [] then AList.delete A (rooms st)
                   else AList.map_entry A (\<lambda>x. x\<lparr>members := set_delete d (members r)\<rparr>)
                          (rooms st)))"
    by (rule auto_leave_effect [OF dev w])
  note e = handleCreateRoom_free [OF dev w q found l(1), of now rnd]
  note s = create_step_effect [where ?st1.0 = st1 and now = now and rnd = rnd
      and nm = "js_trim q" and d = d and w = w and f = "\<lambda>rid. Out_roomCreated rid (js_trim q)",
      folded e]
  have o: "readyStateOf st1 w = readyStateOf st w"
    by (rule readyStateOf_sockets [OF l(2)])
  from s(4) obtain cs where cs: "outbox (snd (handleCreateRoom d rn ri now rnd st)) =
       outbox st1 @
       (if readyStateOf st1 w = OPEN
        then [(w, Out_roomCreated (generateRoomId now rnd) (js_trim q))] else []) @
       cs" "list_all (\<lambda>x. isPresence (snd x)) cs" by blast
  show ?thesis
  proof (rule that [where sl = st1 and bs = bs and cs = cs])
    show "outbox (snd (handleCreateRoom d rn ri now rnd st)) =
       outbox st @ bs @
       (if js_truthy (roomId dev) \<and> readyStateOf st w = OPEN then [(w, Out_roomLeft)] else []) @
       (if readyStateOf st w = OPEN
        then [(w, Out_roomCreated (generateRoomId now rnd) (js_trim q))] else []) @
       cs"
      by (simp only: cs(1) l(3) o append_assoc)
  qed (rule s(1) l(5) l(6) s(2) s(3) l(4) cs(2))+
qed

text \<open>A frame that is no presence frame, among frames of which all others are.\<close>

lemma entering_frame:
  assumes fs: "fs = bs @ (if cL then [(w, Out_roomLeft)] else []) @ (if cE then [(w, e)] else []) @ cs"
    and bs: "list_all (\<lambda>x. isPresence (snd x)) bs"
    and cs: "list_all (\<lambda>x. isPresence (snd x)) cs"
    and f: "\<not> isPresence f" "f \<noteq> Out_roomLeft" "e \<noteq> Out_roomLeft"
    and m: "(w, f) \<in> set fs"
  shows "cE" "f = e" "takeWhile (\<lambda>x. x \<noteq> (w, f)) fs = bs @ (if cL then [(w, Out_roomLeft)] else [])"
proof -
  have nb: "(w, f) \<notin> set bs" using bs f(1) by (auto simp: list_all_iff)
  have nc: "(w, f) \<notin> set cs" using cs f(1) by (auto simp: list_all_iff)
  from m nb nc f(2) show "cE" by (auto simp: fs split: if_splits)
  from m nb nc f(2) show e: "f = e" by (auto simp: fs split: if_splits)
  have "takeWhile (\<lambda>x. x \<noteq> (w, f)) (bs @ (if cL then [(w, Out_roomLeft)] else []) @ (w, e) # cs) =
        bs @ (if cL then [(w, Out_roomLeft)] else [])"
    using nb f(2) e
    by (subst append_assoc [symmetric], subst takeWhile_append2) (auto split: if_splits)
  then show "takeWhile (\<lambda>x. x \<noteq> (w, f)) fs = bs @ (if cL then [(w, Out_roomLeft)] else [])"
    using \<open>cE\<close> by (simp add: fs)
qed

lemma member_only:
  assumes inv: "registry_inv st" and names: "ids_inv st"
    and r: "map_of (rooms st) B = Some r" and m: "d \<in> set (members r)"
  shows "memberOf st d = [B]" "roomIdOf st d = Some B"
proof -
  from inv_member [OF inv r m] show i: "roomIdOf st d = Some B" by (auto simp: roomIdOf_def)
  from map_of_SomeD [OF r] m have "B \<in> set (memberOf st d)" by (force simp: memberOf_def)
  with memberOf_cases [OF inv names, of d] i show "memberOf st d = [B]" by auto
qed

lemma newFrames_append: "outbox st' = outbox st @ fs \<Longrightarrow> newFrames st st' = fs"
  by (simp add: newFrames_def)

lemma join_leaves_first:
  assumes inv: "registry_inv st" and names: "ids_inv st"
    and dev: "map_of (devices st) d = Some dev" and w: "ws dev = Some w"
    and ra: "map_of (rooms st) A = Some ra" and m: "d \<in> set (members ra)" and ne: "B \<noteq> A"
    and st': "st' = handleMessage depth now rnd d (In_joinRoom rn ri) st"
    and fr: "(w, Out_roomJoined B nm n) \<in> set (newFrames st st')"
  shows "(w, Out_roomLeft) \<in>
           set (takeWhile (\<lambda>x. x \<noteq> (w, Out_roomJoined B nm n)) (newFrames st st'))"
    and "roomMembers st' A =
           (if removeAll d (members ra) = [] then None else Some (removeAll d (members ra)))"
    and "roomIdOf st' d = Some B"
    and "memberOf st' d = [B]"
proof -
  from inv_member [OF inv ra m] dev have A: "roomId dev = Some A" by simp
  from inv ra have An: "A \<noteq> []" by (auto simp: registry_inv_def)
  have t: "js_truthy (roomId dev)" by (simp add: A An js_truthy_def)
  from handleJoinRoom_cases [OF dev w, of rn ri]
  consider (error) msg where "handleJoinRoom d rn ri st = ok (ws_send w (Out_roomError msg) st)"
    | (found) q B' rb where "js_or rn ri = Some q" "js_trim q \<noteq> []"
        "findRoomByName (js_trim (toLowerCase q)) st = Some (B', rb)"
    by blast
  then have "(w, Out_roomLeft) \<in>
           set (takeWhile (\<lambda>x. x \<noteq> (w, Out_roomJoined B nm n)) (newFrames st st')) \<and>
     roomMembers st' A =
           (if removeAll d (members ra) = [] then None else Some (removeAll d (members ra))) \<and>
     roomIdOf st' d = Some B \<and> memberOf st' d = [B]"
  proof cases
    case error
    then have "st' = ws_send w (Out_roomError msg) st"
      by (simp add: st' handleMessage_def dispatch_def ok_def)
    then have "set (newFrames st st') \<subseteq> {(w, Out_roomError msg)}"
      by (auto simp: newFrames_def ws_send_def split: if_splits)
    with fr show ?thesis by auto
  next
    case found
    obtain sl :: server and bs cs cur where e:
      "fst (handleJoinRoom d rn ri st) = None"
      "devices sl =
         (if js_truthy (roomId dev) then AList.map_entry d (\<lambda>x. x\<lparr>roomId := None\<rparr>) (devices st)
          else devices st)"
      "rooms sl =
         (case roomId dev of
            None \<Rightarrow> rooms st
          | Some A \<Rightarrow>
              if A = [] then rooms st
              else
                (case map_of (rooms st) A of
                   None \<Rightarrow> rooms st
                 | Some r \<Rightarrow>
                     if set_delete d (members r) = [] then AList.delete A (rooms st)
                     else AList.map_entry A (\<lambda>x. x\<lparr>members := set_delete d (members r)\<rparr>)
                            (rooms st)))"
      "cur = (case map_of (rooms sl) B' of Some r \<Rightarrow> r
              | None \<Rightarrow> rb\<lparr>members := set_delete d (members rb)\<rparr>)"
      "devices (snd (handleJoinRoom d rn ri st)) =
         AList.map_entry d (\<lambda>x. x\<lparr>roomId := Some B'\<rparr>) (devices sl)"
      "rooms (snd (handleJoinRoom d rn ri st)) =
         AList.map_entry B' (\<lambda>x. x\<lparr>members := set_add d (members cur)\<rparr>) (rooms sl)"
      "outbox (snd (handleJoinRoom d rn ri st)) =
         outbox st @ bs @
         (if js_truthy (roomId dev) \<and> readyStateOf st w = OPEN then [(w, Out_roomLeft)] else []) @
         (if readyStateOf st w = OPEN
          then [(w, Out_roomJoined B' (roomName rb) (length (set_add d (members cur))))] else []) @
         cs"
      "list_all (\<lambda>x. isPresence (snd x)) bs"
      "list_all (\<lambda>x. isPresence (snd x)) cs"
      by (rule join_found_effect [OF dev w found])
    have s: "st' = snd (handleJoinRoom d rn ri st)"
      unfolding st' by (rule handleMessage_joinRoom [OF e(1)])
    have nf: "newFrames st st' = bs @
         (if js_truthy (roomId dev) \<and> readyStateOf st w = OPEN then [(w, Out_roomLeft)] else []) @
         (if readyStateOf st w = OPEN
          then [(w, Out_roomJoined B' (roomName rb) (length (set_add d (members cur))))] else []) @
         cs"
      by (rule newFrames_append) (simp only: s e(7))
    note ef = entering_frame [OF nf e(8) e(9) _ _ _ fr]
    have op: "readyStateOf st w = OPEN" by (rule ef(1)) (simp_all add: isPresence_def)
    have "Out_roomJoined B nm n =
            Out_roomJoined B' (roomName rb) (length (set_add d (members cur)))"
      by (rule ef(2)) (simp_all add: isPresence_def)
    then have B: "B' = B" by simp
    have "takeWhile (\<lambda>x. x \<noteq> (w, Out_roomJoined B nm n)) (newFrames st st') =
          bs @ (if js_truthy (roomId dev) \<and> readyStateOf st w = OPEN
                then [(w, Out_roomLeft)] else [])"
      by (rule ef(3)) (simp_all add: isPresence_def)
    then have c1: "(w, Out_roomLeft) \<in>
           set (takeWhile (\<lambda>x. x \<noteq> (w, Out_roomJoined B nm n)) (newFrames st st'))"
      by (simp add: t op)
    note fb = found_in_rooms [OF names found(3)]
    have neq: "roomId dev \<noteq> Some B" using A ne by simp
    have slB: "map_of (rooms sl) B = Some rb"
      using auto_leave_rooms(1) [OF e(3) neq] fb(1) B by simp
    have slA: "map_of (rooms sl) A =
           (if set_delete d (members ra) = [] then None
            else Some (ra\<lparr>members := set_delete d (members ra)\<rparr>))"
      by (rule auto_leave_rooms(2) [OF e(3) A An ra])
    have cur: "cur = rb" by (simp add: e(4) B slB)
    have c2: "roomMembers st' A =
           (if removeAll d (members ra) = [] then None else Some (removeAll d (members ra)))"
      using ne by (simp add: roomMembers_def s e(6) B map_of_map_entry_at slA set_delete_def)
    have rB: "map_of (rooms st') B = Some (rb\<lparr>members := set_add d (members rb)\<rparr>)"
      by (simp add: s e(6) B map_of_map_entry_at slB cur)
    have i': "registry_inv st'" unfolding st' by (rule handleMessage_inv [OF inv])
    have n': "ids_inv st'" unfolding st' by (rule handleMessage_names [OF names])
    from member_only [OF i' n' rB] c1 c2 show ?thesis by simp
  qed
  then show "(w, Out_roomLeft) \<in>
           set (takeWhile (\<lambda>x. x \<noteq> (w, Out_roomJoined B nm n)) (newFrames st st'))"
    and "roomMembers st' A =
           (if removeAll d (members ra) = [] then None else Some (removeAll d (members ra)))"
    and "roomIdOf st' d = Some B"
    and "memberOf st' d = [B]" by simp_all
qed

lemma create_leaves_first:
  assumes inv: "registry_inv st" and names: "ids_inv st"
    and dev: "map_of (devices st) d = Some dev" and w: "ws dev = Some w"
    and ra: "map_of (rooms st) A = Some ra" and m: "d \<in> set (members ra)" and ne: "B \<noteq> A"
    and st': "st' = handleMessage depth now rnd d (In_createRoom rn ri) st"
    and fr: "(w, Out_roomCreated B nm) \<in> set (newFrames st st')"
  shows "(w, Out_roomLeft) \<in>
           set (takeWhile (\<lambda>x. x \<noteq> (w, Out_roomCreated B nm)) (newFrames st st'))"
    and "roomMembers st' A =
           (if removeAll d (members ra) = [] then None else Some (removeAll d (members ra)))"
    and "roomIdOf st' d = Some B"
    and "memberOf st' d = [B]"
proof -
  from inv_member [OF inv ra m] dev have A: "roomId dev = Some A" by simp
  from inv ra have An: "A \<noteq> []" by (auto simp: registry_inv_def)
  have t: "js_truthy (roomId dev)" by (simp add: A An js_truthy_def)
  from handleCreateRoom_cases [OF dev w, of rn ri now rnd]
  consider (error) msg where
      "handleCreateRoom d rn ri now rnd st = ok (ws_send w (Out_roomError msg) st)"
    | (free) q where "js_or rn ri = Some q" "js_trim q \<noteq> []"
        "findRoomByName (js_trim (toLowerCase q)) st = None"
    by blast
  then have "(w, Out_roomLeft) \<in>
           set (takeWhile (\<lambda>x. x \<noteq> (w, Out_roomCreated B nm)) (newFrames st st')) \<and>
     roomMembers st' A =
           (if removeAll d (members ra) = [] then None else Some (removeAll d (members ra))) \<and>
     roomIdOf st' d = Some B \<and> memberOf st' d = [B]"
  proof cases
    case error
    then have "st' = ws_send w (Out_roomError msg) st"
      by (simp add: st' handleMessage_def dispatch_def ok_def)
    then have "set (newFrames st st') \<subseteq> {(w, Out_roomError msg)}"
      by (auto simp: newFrames_def ws_send_def split: if_splits)
    with fr show ?thesis by auto
  next
    case free
    obtain sl :: server and bs cs where e:
      "fst (handleCreateRoom d rn ri now rnd st) = None"
      "devices sl =
         (if js_truthy (roomId dev) then AList.map_entry d (\<lambda>x. x\<lparr>roomId := None\<rparr>) (devices st)
          else devices st)"
      "rooms sl =
         (case roomId dev of
            None \<Rightarrow> rooms st
          | Some A \<Rightarrow>
              if A = [] then rooms st
              else
                (case map_of (rooms st) A of
                   None \<Rightarrow> rooms st
                 | Some r \<Rightarrow>
                     if set_delete d (members r) = [] then AList.delete A (rooms st)
                     else AList.map_entry A (\<lambda>x. x\<lparr>members := set_delete d (members r)\<rparr>)
                            (rooms st)))"
      "devices (snd (handleCreateRoom d rn ri now rnd st)) =
         AList.map_entry d (\<lambda>x. x\<lparr>roomId := Some (generateRoomId now rnd)\<rparr>) (devices sl)"
      "rooms (snd (handleCreateRoom d rn ri now rnd st)) =
         AList.update (generateRoomId now rnd)
           \<lparr>roomName = js_trim q, created = now, createdBy = d, members = [d]\<rparr> (rooms sl)"
      "outbox (snd (handleCreateRoom d rn ri now rnd st)) =
         outbox st @ bs @
         (if js_truthy (roomId dev) \<and> readyStateOf st w = OPEN then [(w, Out_roomLeft)] else []) @
         (if readyStateOf st w = OPEN
          then [(w, Out_roomCreated (generateRoomId now rnd) (js_trim q))] else []) @
         cs"
      "list_all (\<lambda>x. isPresence (snd x)) bs"
      "list_all (\<lambda>x. isPresence (snd x)) cs"
      by (rule create_free_effect [OF dev w free])
    have s: "st' = snd (handleCreateRoom d rn ri now rnd st)"
      unfolding st' by (rule handleMessage_createRoom [OF e(1)])
    have nf: "newFrames st st' = bs @
         (if js_truthy (roomId dev) \<and> readyStateOf st w = OPEN then [(w, Out_roomLeft)] else []) @
         (if readyStateOf st w = OPEN
          then [(w, Out_roomCreated (generateRoomId now rnd) (js_trim q))] else []) @
         cs"
      by (rule newFrames_append) (simp only: s e(6))
    note ef = entering_frame [OF nf e(7) e(8) _ _ _ fr]
    have op: "readyStateOf st w = OPEN" by (rule ef(1)) (simp_all add: isPresence_def)
    have "Out_roomCreated B nm = Out_roomCreated (generateRoomId now rnd) (js_trim q)"
      by (rule ef(2)) (simp_all add: isPresence_def)
    then have B: "generateRoomId now rnd = B" by simp
    have "takeWhile (\<lambda>x. x \<noteq> (w, Out_roomCreated B nm)) (newFrames st st') =
          bs @ (if js_truthy (roomId dev) \<and> readyStateOf st w = OPEN
                then [(w, Out_roomLeft)] else [])"
      by (rule ef(3)) (simp_all add: isPresence_def)
    then have c1: "(w, Out_roomLeft) \<in>
           set (takeWhile (\<lambda>x. x \<noteq> (w, Out_roomCreated B nm)) (newFrames st st'))"
      by (simp add: t op)
    have slA: "map_of (rooms sl) A =
           (if set_delete d (members ra) = [] then None
            else Some (ra\<lparr>members := set_delete d (members ra)\<rparr>))"
      by (rule auto_leave_rooms(2) [OF e(3) A An ra])
    have c2: "roomMembers st' A =
           (if removeAll d (members ra) = [] then None else Some (removeAll d (members ra)))"
      using ne by (simp add: roomMembers_def s e(5) B update_conv' slA set_delete_def)
    have rB: "map_of (rooms st') B =
                Some \<lparr>roomName = js_trim q, created = now, createdBy = d, members = [d]\<rparr>"
      by (simp add: s e(5) B update_conv')
    have i': "registry_inv st'" unfolding st' by (rule handleMessage_inv [OF inv])
    have n': "ids_inv st'" unfolding st' by (rule handleMessage_names [OF names])
    from member_only [OF i' n' rB] c1 c2 show ?thesis by simp
  qed
  then show "(w, Out_roomLeft) \<in>
           set (takeWhile (\<lambda>x. x \<noteq> (w, Out_roomCreated B nm)) (newFrames st st'))"
    and "roomMembers st' A =
           (if removeAll d (members ra) = [] then None else Some (removeAll d (members ra)))"
    and "roomIdOf st' d = Some B"
    and "memberOf st' d = [B]" by simp_all
qed

lemma join_first_named:
  assumes r: "map_of (rooms st) rid = Some r"
    and first: "list_all (\<lambda>e. toLowerCase (roomName (snd e)) \<noteq> toLowerCase (js_trim q))
                  (takeWhile (\<lambda>e. fst e \<noteq> rid) (rooms st))"
    and nm: "toLowerCase (js_trim q) = toLowerCase (roomName r)"
    and dev: "map_of (devices st) d = Some dev" and w: "ws dev = Some w"
    and op: "readyStateOf st w = OPEN"
    and q: "js_or rn ri = Some q" and qn: "js_trim q \<noteq> []"
    and ns: "\<not> (roomId dev = Some rid \<and> set (members r) \<subseteq> {d})"
    and st': "st' = handleMessage depth now rnd d (In_joinRoom rn ri) st"
  shows "roomIdOf st' d = Some rid \<and>
         (case roomMembers st' rid of
            None \<Rightarrow> False
          | Some ms \<Rightarrow>
              set ms = insert d (set (members r)) \<and>
              (w, Out_roomJoined rid (roomName r) (length ms)) \<in> set (newFrames st st'))"
proof -
  have found: "findRoomByName (js_trim (toLowerCase q)) st = Some (rid, r)"
    unfolding js_trim_toLowerCase
    by (rule find_first_named [OF r nm [symmetric] first])
  obtain sl :: server and bs cs cur where e:
    "fst (handleJoinRoom d rn ri st) = None"
    "devices sl =
       (if js_truthy (roomId dev) then AList.map_entry d (\<lambda>x. x\<lparr>roomId := None\<rparr>) (devices st)
        else devices st)"
    "rooms sl =
       (case roomId dev of
          None \<Rightarrow> rooms st
        | Some A \<Rightarrow>
            if A = [] then rooms st
            else
              (case map_of (rooms st) A of
                 None \<Rightarrow> rooms st
               | Some r \<Rightarrow>
                   if set_delete d (members r) = [] then AList.delete A (rooms st)
                   else AList.map_entry A (\<lambda>x. x\<lparr>members := set_delete d (members r)\<rparr>)
                          (rooms st)))"
    "cur = (case map_of (rooms sl) rid of Some r \<Rightarrow> r
            | None \<Rightarrow> r\<lparr>members := set_delete d (members r)\<rparr>)"
    "devices (snd (handleJoinRoom d rn ri st)) =
       AList.map_entry d (\<lambda>x. x\<lparr>roomId := Some rid\<rparr>) (devices sl)"
    "rooms (snd (handleJoinRoom d rn ri st)) =
       AList.map_entry rid (\<lambda>x. x\<lparr>members := set_add d (members cur)\<rparr>) (rooms sl)"
    "outbox (snd (handleJoinRoom d rn ri st)) =
       outbox st @ bs @
       (if js_truthy (roomId dev) \<and> readyStateOf st w = OPEN then [(w, Out_roomLeft)] else []) @
       (if readyStateOf st w = OPEN
        then [(w, Out_roomJoined rid (roomName r) (length (set_add d (members cur))))] else []) @
       cs"
    "list_all (\<lambda>x. isPresence (snd x)) bs"
    "list_all (\<lambda>x. isPresence (snd x)) cs"
    by (rule join_found_effect [OF dev w q qn found])
  have s: "st' = snd (handleJoinRoom d rn ri st)"
    unfolding st' by (rule handleMessage_joinRoom [OF e(1)])
  have nf: "newFrames st st' = bs @
       (if js_truthy (roomId dev) \<and> readyStateOf st w = OPEN then [(w, Out_roomLeft)] else []) @
       (if readyStateOf st w = OPEN
        then [(w, Out_roomJoined rid (roomName r) (length (set_add d (members cur))))] else []) @
       cs"
    by (rule newFrames_append) (simp only: s e(7))
  have fr: "(w, Out_roomJoined rid (roomName r) (length (set_add d (members cur))))
              \<in> set (newFrames st st')"
    by (simp add: nf op)
  have cur: "map_of (rooms sl) rid = Some cur \<and>
             insert d (set (members cur)) = insert d (set (members r))"
  proof (cases "roomId dev = Some rid")
    case True
    show ?thesis
    proof (cases "rid = []")
      case rid: True
      with True have "\<not> js_truthy (roomId dev)" by (simp add: js_truthy_def)
      from auto_leave_rooms(3) [OF e(3) this] r show ?thesis by (simp add: e(4))
    next
      case rid: False
      from ns True obtain x where "x \<in> set (members r)" "x \<noteq> d" by auto
      then have "x \<in> set (set_delete d (members r))" by simp
      then have "set_delete d (members r) \<noteq> []" by (metis empty_iff list.set(1))
      with auto_leave_rooms(2) [OF e(3) True rid r] show ?thesis
        by (auto simp: e(4))
    qed
  next
    case False
    with auto_leave_rooms(1) [OF e(3) False] r show ?thesis
      by (simp add: e(4))
  qed
  have rB: "map_of (rooms st') rid = Some (cur\<lparr>members := set_add d (members cur)\<rparr>)"
    using cur by (simp add: s e(6) map_of_map_entry_at)
  have rid: "roomIdOf st' d = Some rid"
    using dev by (simp add: roomIdOf_def s e(5) e(2) map_of_map_entry_at)
  have "roomMembers st' rid = Some (set_add d (members cur))"
    by (simp add: roomMembers_def rB)
  with rid fr cur show ?thesis by simp
qed

lemma join_unknown_name:
  assumes dev: "map_of (devices st) d = Some dev" and w: "ws dev = Some w"
    and op: "readyStateOf st w = OPEN"
    and q: "js_or rn ri = Some q" "js_trim q \<noteq> []"
    and un: "js_trim (toLowerCase q) \<notin> set (map (\<lambda>e. toLowerCase (snd e)) (roomNames st))"
  shows "handleMessage depth now rnd d (In_joinRoom rn ri) st =
         ws_send w (Out_roomError ''Raum nicht gefunden'') st"
proof -
  have "findRoomByName (js_trim (toLowerCase q)) st = None"
    using un by (force simp: findRoomByName_def find_None_iff roomNames_def)
  moreover have "q \<noteq> []" using q(2) by auto
  ultimately show ?thesis
    by (simp add: handleMessage_def dispatch_def handleJoinRoom_def dev w q send_on_def ok_def)
qed

lemma st_bar_eq:
  "st_bar =
     \<lparr>devices =
        [(''device-yaelai'', device_a),
         (''device-yaem17'', device_b\<lparr>roomId := Some ''room-3000-xyz789ghi''\<rparr>)],
      rooms =
        [(''room-2000-abc123def'',
          \<lparr>roomName = ''Foo'', created = 2000, createdBy = ''device-yaelai'',
           members = [''device-yaelai'']\<rparr>),
         (''room-3000-xyz789ghi'',
          \<lparr>roomName = ''Bar'', created = 3000, createdBy = ''device-yaem17'',
           members = [''device-yaem17'']\<rparr>)],
      connections = [(1, ''device-yaelai''), (2, ''device-yaem17'')],
      activeConnections = [(1, 2000), (2, 3000)], fileTransfers = [],
      currentMemoryUsage = 0, sockets = [(1, OPEN), (2, OPEN)],
      outbox =
        [(1, Out_roomCreated ''room-2000-abc123def'' ''Foo''),
         (1, Out_deviceList [(''device-yaelai'', ''Unknown (Unknown)'', False, True)]
               ''room-2000-abc123def'' ''Foo'' 1),
         (2, Out_roomCreated ''room-3000-xyz789ghi'' ''Bar''),
         (2, Out_deviceList [(''device-yaem17'', ''Unknown (Unknown)'', False, True)]
               ''room-3000-xyz789ghi'' ''Bar'' 1)],
      closeCalls = [],
      timers = [(100, Timer_welcome 1 ''device-yaelai''),
                (100, Timer_welcome 2 ''device-yaem17'')]\<rparr>"
  by code_simp

lemma st_restart_eq:
  "st_restart =
     \<lparr>devices = [(''device-yaem17'', device_b\<lparr>lastSeen := 5000\<rparr>)],
      rooms =
        [(''room-2000-abc123def'',
          \<lparr>roomName = ''Foo'', created = 2000, createdBy = ''device-yaem17'',
           members = [''device-yaem17'']\<rparr>)],
      connections = [(2, ''device-yaem17'')], activeConnections = [(2, 5000)],
      fileTransfers = [], currentMemoryUsage = 0, sockets = [(2, OPEN)],
      outbox = [], closeCalls = [],
      timers = [(100, Timer_welcome 2 ''device-yaem17'')]\<rparr>"
  by code_simp

lemma st_restart_stale_eq:
  "st_restart_stale =
     \<lparr>devices = [(''device-yaem17'', device_b\<lparr>lastSeen := 5000, roomId := None\<rparr>)],
      rooms =
        [(''room-2000-abc123def'',
          \<lparr>roomName = ''Foo'', created = 2000, createdBy = ''device-yaem17'',
           members = [''device-yaem17'']\<rparr>)],
      connections = [(2, ''device-yaem17'')], activeConnections = [(2, 5000)],
      fileTransfers = [], currentMemoryUsage = 0, sockets = [(2, OPEN)],
      outbox = [], closeCalls = [],
      timers = [(100, Timer_welcome 2 ''device-yaem17'')]\<rparr>"
  by code_simp

lemma reachable_st_restart: "reachable_from (startup saved_devices saved_rooms) st_restart"
  unfolding st_restart_def by (intro reachable_from.intros)

lemma reachable_stale:
  "reachable_from (startup [] saved_rooms)
     (on_message 100 2 6000 ''xyz789ghi'' (Some (In_createRoom (Some ''Bar'') None))
        st_restart_stale)"
  unfolding st_restart_stale_def by (intro reachable_from.intros)

text \<open>
  Claim C10, as the code has it. The automatic leave is keyed on the device's
  \<open>roomId\<close>, so it keeps a device in one room as long as the member sets and the
  \<open>roomId\<close> fields agree. The server starts from whatever the two catalogue files
  hold. When they are in step (every member of a saved room is a saved device whose
  \<open>roomId\<close> is that room, and no room has the empty id; two empty catalogues are),
  then in every state the server reaches a device is in the member set of no room, or
  of the one room its \<open>roomId\<close> names. And in such a state a member of the room \<open>A\<close>
  that sends \<open>joinRoom\<close> or \<open>createRoom\<close> and is answered on its socket with
  \<open>roomJoined\<close> or \<open>roomCreated\<close> for another room \<open>B\<close> has been sent \<open>roomLeft\<close> on
  that socket before the answer; \<open>A\<close> has lost the device and is gone if that left it
  empty, and the device has the \<open>roomId\<close> \<open>B\<close> and is a member of \<open>B\<close> and of no other
  room.
\<close>

theorem one_room_per_device:
  assumes "reachable_from (startup devicesData roomsData) st"
    and "inStep (startup devicesData roomsData)"
  shows "(memberOf st d = [] \<or> map_option (\<lambda>A. [A]) (roomIdOf st d) = Some (memberOf st d)) \<and>
    (map_of (devices st) d = Some dev \<and> ws dev = Some w \<and>
     map_of (rooms st) A = Some ra \<and> d \<in> set (members ra) \<and> B \<noteq> A \<and>
     (data = In_joinRoom rn ri \<and> f = Out_roomJoined B nm n \<or>
      data = In_createRoom rn ri \<and> f = Out_roomCreated B nm) \<and>
     st' = handleMessage depth now rnd d data st \<and>
     (w, f) \<in> set (newFrames st st') \<longrightarrow>
       (w, Out_roomLeft) \<in> set (takeWhile (\<lambda>x. x \<noteq> (w, f)) (newFrames st st')) \<and>
       roomMembers st' A =
         (if removeAll d (members ra) = [] then None else Some (removeAll d (members ra))) \<and>
       roomIdOf st' d = Some B \<and>
       memberOf st' d = [B])"
proof -
  note inv = reachable_inv [OF assms(1) startup_inv [OF assms(2)]]
  note names = reachable_names [OF assms(1) startup_ids]
  have one: "memberOf st d = [] \<or> map_option (\<lambda>A. [A]) (roomIdOf st d) = Some (memberOf st d)"
    using memberOf_cases [OF inv names, of d] by auto
  have two: "(w, Out_roomLeft) \<in> set (takeWhile (\<lambda>x. x \<noteq> (w, f)) (newFrames st st')) \<and>
       roomMembers st' A =
         (if removeAll d (members ra) = [] then None else Some (removeAll d (members ra))) \<and>
       roomIdOf st' d = Some B \<and>
       memberOf st' d = [B]"
    if h: "map_of (devices st) d = Some dev" "ws dev = Some w"
      "map_of (rooms st) A = Some ra" "d \<in> set (members ra)" "B \<noteq> A"
      "data = In_joinRoom rn ri \<and> f = Out_roomJoined B nm n \<or>
       data = In_createRoom rn ri \<and> f = Out_roomCreated B nm"
      "st' = handleMessage depth now rnd d data st"
      "(w, f) \<in> set (newFrames st st')"
  proof -
    from h(6) show ?thesis
    proof (elim disjE conjE)
      assume a: "data = In_joinRoom rn ri" "f = Out_roomJoined B nm n"
      from join_leaves_first [OF inv names h(1-5) h(7) [unfolded a] h(8) [unfolded a]]
      show ?thesis by (simp add: a)
    next
      assume a: "data = In_createRoom rn ri" "f = Out_roomCreated B nm"
      from create_leaves_first [OF inv names h(1-5) h(7) [unfolded a] h(8) [unfolded a]]
      show ?thesis by (simp add: a)
    qed
  qed
  from one two show ?thesis by blast
qed

theorem one_room_per_device_witness:
  "reachable_from (startup saved_devices saved_rooms) st_restart \<and>
   inStep (startup saved_devices saved_rooms) \<and>
   map_of (devices st_restart) ''device-yaem17'' = Some (device_b\<lparr>lastSeen := 5000\<rparr>) \<and>
   ws (device_b\<lparr>lastSeen := 5000\<rparr>) = Some 2 \<and>
   roomMembers st_restart ''room-2000-abc123def'' = Some [''device-yaem17''] \<and>
   memberOf st_restart ''device-yaem17'' = [''room-2000-abc123def''] \<and>
   (2, Out_roomCreated ''room-6000-xyz789ghi'' ''Bar'') \<in>
     set (newFrames st_restart
            (handleMessage 100 6000 ''xyz789ghi'' ''device-yaem17''
               (In_createRoom (Some ''Bar'') None) st_restart)) \<and>
   (2, Out_roomLeft) \<in>
     set (takeWhile (\<lambda>x. x \<noteq> (2, Out_roomCreated ''room-6000-xyz789ghi'' ''Bar''))
            (newFrames st_restart
               (handleMessage 100 6000 ''xyz789ghi'' ''device-yaem17''
                  (In_createRoom (Some ''Bar'') None) st_restart))) \<and>
   roomMembers
     (handleMessage 100 6000 ''xyz789ghi'' ''device-yaem17''
        (In_createRoom (Some ''Bar'') None) st_restart)
     ''room-2000-abc123def'' = None \<and>
   roomIdOf
     (handleMessage 100 6000 ''xyz789ghi'' ''device-yaem17''
        (In_createRoom (Some ''Bar'') None) st_restart)
     ''device-yaem17'' = Some ''room-6000-xyz789ghi'' \<and>
   memberOf
     (handleMessage 100 6000 ''xyz789ghi'' ''device-yaem17''
        (In_createRoom (Some ''Bar'') None) st_restart)
     ''device-yaem17'' = [''room-6000-xyz789ghi'']"
proof -
  define st' where
    "st' = handleMessage 100 6000 ''xyz789ghi'' ''device-yaem17''
             (In_createRoom (Some ''Bar'') None) st_restart"
  define ra where
    "ra = \<lparr>roomName = ''Foo'', created = 2000, createdBy = ''device-yaem17'',
           members = [''device-yaem17'']\<rparr>"
  have h0: "inStep (startup saved_devices saved_rooms)" by code_simp
  have h1: "map_of (devices st_restart) ''device-yaem17'' = Some (device_b\<lparr>lastSeen := 5000\<rparr>)"
    unfolding st_restart_eq by code_simp
  have h2: "ws (device_b\<lparr>lastSeen := 5000\<rparr>) = Some 2" by code_simp
  have h3: "map_of (rooms st_restart) ''room-2000-abc123def'' = Some ra"
    unfolding st_restart_eq ra_def by code_simp
  have h4: "''device-yaem17'' \<in> set (members ra)" unfolding ra_def by simp
  have h5: "''room-6000-xyz789ghi'' \<noteq> ''room-2000-abc123def''" by simp
  have h6: "(2, Out_roomCreated ''room-6000-xyz789ghi'' ''Bar'') \<in> set (newFrames st_restart st')"
    unfolding st'_def st_restart_eq by code_simp
  have h7: "roomMembers st_restart ''room-2000-abc123def'' = Some [''device-yaem17'']"
    unfolding st_restart_eq by code_simp
  have h8: "roomIdOf st_restart ''device-yaem17'' = Some ''room-2000-abc123def''"
    unfolding st_restart_eq by code_simp
  have h9: "memberOf st_restart ''device-yaem17'' \<noteq> []"
    unfolding st_restart_eq by code_simp
  have h10: "removeAll ''device-yaem17'' (members ra) = []" unfolding ra_def by simp
  note t = one_room_per_device [OF reachable_st_restart h0, of "''device-yaem17''"
      "device_b\<lparr>lastSeen := 5000\<rparr>" 2 "''room-2000-abc123def''" ra
      "''room-6000-xyz789ghi''" "In_createRoom (Some ''Bar'') None" "Some ''Bar''" None
      "Out_roomCreated ''room-6000-xyz789ghi'' ''Bar''" "''Bar''" 0 st' 100 6000 "''xyz789ghi''"]
  from t h8 h9 have a: "memberOf st_restart ''device-yaem17'' = [''room-2000-abc123def'']"
    by auto
  from t h1 h2 h3 h4 h5 h6
  have b: "(2, Out_roomLeft) \<in>
       set (takeWhile (\<lambda>x. x \<noteq> (2, Out_roomCreated ''room-6000-xyz789ghi'' ''Bar''))
              (newFrames st_restart st')) \<and>
     roomMembers st' ''room-2000-abc123def'' =
       (if removeAll ''device-yaem17'' (members ra) = [] then None
        else Some (removeAll ''device-yaem17'' (members ra))) \<and>
     roomIdOf st' ''device-yaem17'' = Some ''room-6000-xyz789ghi'' \<and>
     memberOf st' ''device-yaem17'' = [''room-6000-xyz789ghi'']"
    by (simp add: st'_def)
  then have b1: "(2, Out_roomLeft) \<in>
       set (takeWhile (\<lambda>x. x \<noteq> (2, Out_roomCreated ''room-6000-xyz789ghi'' ''Bar''))
              (newFrames st_restart st'))"
    and b2: "roomMembers st' ''room-2000-abc123def'' = None"
    and b3: "roomIdOf st' ''device-yaem17'' = Some ''room-6000-xyz789ghi''"
    and b4: "memberOf st' ''device-yaem17'' = [''room-6000-xyz789ghi'']"
    by (simp_all add: h10)
  show ?thesis
    unfolding st'_def [symmetric]
    by (intro conjI) (fact reachable_st_restart h0 h1 h2 h7 a h6 b1 b2 b3 b4)+
qed

text \<open>
  Claim C10 as the specification states it, for every reachable state and every device
  that is a member of a room, fails. The server starts with an empty device catalogue
  and a room catalogue in which \<open>Foo\<close> lists a device. The device connects, is
  registered afresh without a \<open>roomId\<close>, and creates the room \<open>Bar\<close>: no \<open>roomLeft\<close> is
  sent, the device stays in the member set of \<open>Foo\<close>, and it ends in the member sets of
  two rooms.
\<close>

theorem one_room_per_device_counterexample:
  "reachable_from (startup [] saved_rooms)
     (on_message 100 2 6000 ''xyz789ghi'' (Some (In_createRoom (Some ''Bar'') None))
        st_restart_stale) \<and>
   roomMembers st_restart_stale ''room-2000-abc123def'' = Some [''device-yaem17''] \<and>
   ws_of (map_of (devices st_restart_stale) ''device-yaem17'') = Some 2 \<and>
   newFrames st_restart_stale
     (on_message 100 2 6000 ''xyz789ghi'' (Some (In_createRoom (Some ''Bar'') None))
        st_restart_stale) =
     [(2, Out_roomCreated ''room-6000-xyz789ghi'' ''Bar''),
      (2, Out_deviceList [(''device-yaem17'', ''Unknown (Unknown)'', False, True)]
            ''room-6000-xyz789ghi'' ''Bar'' 1)] \<and>
   roomIdOf
     (on_message 100 2 6000 ''xyz789ghi'' (Some (In_createRoom (Some ''Bar'') None))
        st_restart_stale) ''device-yaem17'' = Some ''room-6000-xyz789ghi'' \<and>
   memberOf
     (on_message 100 2 6000 ''xyz789ghi'' (Some (In_createRoom (Some ''Bar'') None))
        st_restart_stale) ''device-yaem17'' =
     [''room-2000-abc123def'', ''room-6000-xyz789ghi'']"
proof -
  have "roomMembers st_restart_stale ''room-2000-abc123def'' = Some [''device-yaem17''] \<and>
   ws_of (map_of (devices st_restart_stale) ''device-yaem17'') = Some 2 \<and>
   newFrames st_restart_stale
     (on_message 100 2 6000 ''xyz789ghi'' (Some (In_createRoom (Some ''Bar'') None))
        st_restart_stale) =
     [(2, Out_roomCreated ''room-6000-xyz789ghi'' ''Bar''),
      (2, Out_deviceList [(''device-yaem17'', ''Unknown (Unknown)'', False, True)]
            ''room-6000-xyz789ghi'' ''Bar'' 1)] \<and>
   roomIdOf
     (on_message 100 2 6000 ''xyz789ghi'' (Some (In_createRoom (Some ''Bar'') None))
        st_restart_stale) ''device-yaem17'' = Some ''room-6000-xyz789ghi'' \<and>
   memberOf
     (on_message 100 2 6000 ''xyz789ghi'' (Some (In_createRoom (Some ''Bar'') None))
        st_restart_stale) ''device-yaem17'' =
     [''room-2000-abc123def'', ''room-6000-xyz789ghi'']"
    unfolding st_restart_stale_eq by code_simp
  with reachable_stale show ?thesis by simp
qed

text \<open>
  Claim C6, as the code has it. The key of \<open>joinRoom\<close> is the display name and nothing
  else: the name asked for is \<open>roomName\<close> or, when that is absent or empty, the
  \<open>roomId\<close> field; it must not be blank, and it is compared with the display names up
  to case, after trimming. The lookup takes the first room of the registry that has
  the name. In every state, a registered device on an open socket that names a room
  this way, no earlier room having that name, gets the \<open>roomId\<close> of that room, is added
  to its members while the members the room had stay, and receives \<open>roomJoined\<close> with the
  id, the name and the new member count. The one exception is the device that is the
  only member of that very room: the automatic leave deletes the room first. A name
  that no room has up to case is answered with \<open>roomError\<close> and changes no room and no
  \<open>roomId\<close>.
\<close>

theorem join_by_name:
  assumes "map_of (devices st) d = Some dev" and "ws dev = Some w"
    and "readyStateOf st w = OPEN"
    and "js_or rn ri = Some q" and "js_trim q \<noteq> []"
    and "st' = handleMessage depth now rnd d (In_joinRoom rn ri) st"
  shows "(map_of (rooms st) rid = Some r \<and>
          toLowerCase (js_trim q) = toLowerCase (roomName r) \<and>
          list_all (\<lambda>e. toLowerCase (roomName (snd e)) \<noteq> toLowerCase (js_trim q))
            (takeWhile (\<lambda>e. fst e \<noteq> rid) (rooms st)) \<and>
          \<not> (roomId dev = Some rid \<and> set (members r) \<subseteq> {d}) \<longrightarrow>
            roomIdOf st' d = Some rid \<and>
            (case roomMembers st' rid of
               None \<Rightarrow> False
             | Some ms \<Rightarrow>
                 set ms = insert d (set (members r)) \<and>
                 (w, Out_roomJoined rid (roomName r) (length ms)) \<in> set (newFrames st st'))) \<and>
         (toLowerCase (js_trim q) \<notin> set (map (\<lambda>e. toLowerCase (snd e)) (roomNames st)) \<longrightarrow>
            newFrames st st' = [(w, Out_roomError ''Raum nicht gefunden'')] \<and>
            rooms st' = rooms st \<and> roomIdOf st' d = roomIdOf st d)"
proof (intro conjI impI)
  assume a: "map_of (rooms st) rid = Some r \<and>
          toLowerCase (js_trim q) = toLowerCase (roomName r) \<and>
          list_all (\<lambda>e. toLowerCase (roomName (snd e)) \<noteq> toLowerCase (js_trim q))
            (takeWhile (\<lambda>e. fst e \<noteq> rid) (rooms st)) \<and>
          \<not> (roomId dev = Some rid \<and> set (members r) \<subseteq> {d})"
  from a have a1: "map_of (rooms st) rid = Some r"
    and a2: "toLowerCase (js_trim q) = toLowerCase (roomName r)"
    and a3: "list_all (\<lambda>e. toLowerCase (roomName (snd e)) \<noteq> toLowerCase (js_trim q))
            (takeWhile (\<lambda>e. fst e \<noteq> rid) (rooms st))"
    and a4: "\<not> (roomId dev = Some rid \<and> set (members r) \<subseteq> {d})" by blast+
  from join_first_named [OF a1 a3 a2 assms(1-5) a4 assms(6)]
  show "roomIdOf st' d = Some rid"
    and "case roomMembers st' rid of
           None \<Rightarrow> False
         | Some ms \<Rightarrow>
             set ms = insert d (set (members r)) \<and>
             (w, Out_roomJoined rid (roomName r) (length ms)) \<in> set (newFrames st st')"
    by simp_all
next
  assume "toLowerCase (js_trim q) \<notin> set (map (\<lambda>e. toLowerCase (snd e)) (roomNames st))"
  then have "js_trim (toLowerCase q) \<notin> set (map (\<lambda>e. toLowerCase (snd e)) (roomNames st))"
    by (simp add: js_trim_toLowerCase)
  from join_unknown_name [OF assms(1-5) this, of depth now rnd]
  have e: "st' = ws_send w (Out_roomError ''Raum nicht gefunden'') st"
    by (simp add: assms(6))
  show "newFrames st st' = [(w, Out_roomError ''Raum nicht gefunden'')]"
    by (simp add: e newFrames_def ws_send_def assms(3))
  show "rooms st' = rooms st" by (simp add: e ws_send_def)
  show "roomIdOf st' d = roomIdOf st d" by (simp add: e ws_send_def roomIdOf_def)
qed

theorem join_by_name_witness:
  "map_of (devices st_bar) ''device-yaelai'' = Some device_a \<and> ws device_a = Some 1 \<and>
   readyStateOf st_bar 1 = OPEN \<and>
   roomMembers st_bar ''room-3000-xyz789ghi'' = Some [''device-yaem17''] \<and>
   toLowerCase (js_trim ''  BAR '') = toLowerCase ''Bar'' \<and>
   roomIdOf
     (handleMessage 100 4000 [] ''device-yaelai'' (In_joinRoom (Some ''  BAR '') None) st_bar)
     ''device-yaelai'' = Some ''room-3000-xyz789ghi'' \<and>
   roomMembers
     (handleMessage 100 4000 [] ''device-yaelai'' (In_joinRoom (Some ''  BAR '') None) st_bar)
     ''room-3000-xyz789ghi'' = Some [''device-yaem17'', ''device-yaelai''] \<and>
   (1, Out_roomJoined ''room-3000-xyz789ghi'' ''Bar'' 2) \<in>
     set (newFrames st_bar
            (handleMessage 100 4000 [] ''device-yaelai'' (In_joinRoom (Some ''  BAR '') None)
               st_bar)) \<and>
   js_trim ''lobby'' = ''lobby'' \<and>
   list_all (\<lambda>e. toLowerCase (snd e) \<noteq> toLowerCase (js_trim ''lobby'')) (roomNames st_bar) \<and>
   newFrames st_bar
     (handleMessage 100 4000 [] ''device-yaelai'' (In_joinRoom (Some ''lobby'') None) st_bar) =
     [(1, Out_roomError ''Raum nicht gefunden'')] \<and>
   rooms (handleMessage 100 4000 [] ''device-yaelai'' (In_joinRoom (Some ''lobby'') None) st_bar)
     = rooms st_bar"
proof -
  define sj where
    "sj = handleMessage 100 4000 [] ''device-yaelai'' (In_joinRoom (Some ''  BAR '') None) st_bar"
  define sn where
    "sn = handleMessage 100 4000 [] ''device-yaelai'' (In_joinRoom (Some ''lobby'') None) st_bar"
  define rb where
    "rb = \<lparr>roomName = ''Bar'', created = 3000, createdBy = ''device-yaem17'',
           members = [''device-yaem17'']\<rparr>"
  have h1: "map_of (devices st_bar) ''device-yaelai'' = Some device_a"
    unfolding st_bar_eq by code_simp
  have h2: "ws device_a = Some 1" by code_simp
  have h3: "readyStateOf st_bar 1 = OPEN" unfolding st_bar_eq by code_simp
  have h4: "js_or (Some ''  BAR '') None = Some ''  BAR ''" by code_simp
  have h4': "js_or (Some ''lobby'') None = Some ''lobby''" by code_simp
  have h4n: "js_trim ''  BAR '' \<noteq> []" by code_simp
  have h5: "map_of (rooms st_bar) ''room-3000-xyz789ghi'' = Some rb"
    unfolding st_bar_eq rb_def by code_simp
  have h6: "toLowerCase (js_trim ''  BAR '') = toLowerCase ''Bar''" by code_simp
  have h6': "toLowerCase (js_trim ''  BAR '') = toLowerCase (roomName rb)"
    unfolding rb_def by code_simp
  have hf: "list_all (\<lambda>e. toLowerCase (roomName (snd e)) \<noteq> toLowerCase (js_trim ''  BAR ''))
              (takeWhile (\<lambda>e. fst e \<noteq> ''room-3000-xyz789ghi'') (rooms st_bar))"
    unfolding st_bar_eq by code_simp
  have h7: "\<not> (roomId device_a = Some ''room-3000-xyz789ghi'' \<and>
              set (members rb) \<subseteq> {''device-yaelai''})"
    unfolding rb_def by simp
  have h8: "js_trim ''lobby'' = ''lobby''" by code_simp
  have h8': "js_trim ''lobby'' \<noteq> []" unfolding h8 by simp
  have h9: "list_all (\<lambda>e. toLowerCase (snd e) \<noteq> toLowerCase (js_trim ''lobby''))
              (roomNames st_bar)"
    unfolding st_bar_eq by code_simp
  then have h9': "toLowerCase (js_trim ''lobby'') \<notin>
              set (map (\<lambda>e. toLowerCase (snd e)) (roomNames st_bar))"
    by (auto simp: list_all_iff)
  have h10: "roomMembers st_bar ''room-3000-xyz789ghi'' = Some [''device-yaem17'']"
    unfolding st_bar_eq by code_simp
  note t = join_by_name [OF h1 h2 h3 h4 h4n sj_def, of "''room-3000-xyz789ghi''" rb]
  from t h5 h6' hf h7
  have a: "roomIdOf sj ''device-yaelai'' = Some ''room-3000-xyz789ghi'' \<and>
     (case roomMembers sj ''room-3000-xyz789ghi'' of
        None \<Rightarrow> False
      | Some ms \<Rightarrow>
          set ms = insert ''device-yaelai'' (set (members rb)) \<and>
          (1, Out_roomJoined ''room-3000-xyz789ghi'' (roomName rb) (length ms))
            \<in> set (newFrames st_bar sj))"
    by blast
  then have a1: "roomIdOf sj ''device-yaelai'' = Some ''room-3000-xyz789ghi''" by blast
  have m: "roomMembers sj ''room-3000-xyz789ghi'' = Some [''device-yaem17'', ''device-yaelai'']"
    unfolding sj_def st_bar_eq by code_simp
  from a have "(1, Out_roomJoined ''room-3000-xyz789ghi'' (roomName rb)
                     (length [''device-yaem17'', ''device-yaelai'']))
            \<in> set (newFrames st_bar sj)"
    unfolding m by simp
  then have a3: "(1, Out_roomJoined ''room-3000-xyz789ghi'' ''Bar'' 2)
            \<in> set (newFrames st_bar sj)"
    by (simp add: rb_def numeral_2_eq_2)
  note u = join_by_name [OF h1 h2 h3 h4' h8' sn_def, of "''room-3000-xyz789ghi''" rb]
  from u h9'
  have b: "newFrames st_bar sn = [(1, Out_roomError ''Raum nicht gefunden'')] \<and>
           rooms sn = rooms st_bar \<and>
           roomIdOf sn ''device-yaelai'' = roomIdOf st_bar ''device-yaelai''"
    by blast
  then have b1: "newFrames st_bar sn = [(1, Out_roomError ''Raum nicht gefunden'')]"
    and b2: "rooms sn = rooms st_bar" by blast+
  show ?thesis
    unfolding sj_def [symmetric] sn_def [symmetric]
    by (intro conjI) (fact h1 h2 h3 h10 h6 a1 m a3 h8 h9 b1 b2)+
qed

text \<open>
  The claim as written fails for the id the server mints: the room
  \<open>room-2000-abc123def\<close> exists, the second device asks for it by that id and is
  answered \<open>roomError\<close>; the room keeps its one member and the device its room.
\<close>

theorem join_by_id_counterexample:
  "roomMembers st_bar ''room-2000-abc123def'' = Some [''device-yaelai''] \<and>
   map_of (devices st_bar) ''device-yaem17'' =
     Some (device_b\<lparr>roomId := Some ''room-3000-xyz789ghi''\<rparr>) \<and>
   ws (device_b\<lparr>roomId := Some ''room-3000-xyz789ghi''\<rparr>) = Some 2 \<and>
   readyStateOf st_bar 2 = OPEN \<and>
   newFrames st_bar
     (handleMessage 100 4000 [] ''device-yaem17''
        (In_joinRoom None (Some ''room-2000-abc123def'')) st_bar) =
     [(2, Out_roomError ''Raum nicht gefunden'')] \<and>
   roomMembers
     (handleMessage 100 4000 [] ''device-yaem17''
        (In_joinRoom None (Some ''room-2000-abc123def'')) st_bar)
     ''room-2000-abc123def'' = Some [''device-yaelai''] \<and>
   roomIdOf
     (handleMessage 100 4000 [] ''device-yaem17''
        (In_joinRoom None (Some ''room-2000-abc123def'')) st_bar)
     ''device-yaem17'' = Some ''room-3000-xyz789ghi''"
  unfolding st_bar_eq by code_simp

end
